theory Spec2Isabelle
  imports Main "HOL-Library.Sublist"
begin

section \<open>Errors\<close>

text \<open>
  Every exception the modelled code can raise is a value. \<open>Raised\<close> stands for an
  exception thrown by caller code inside a scoped work block.
\<close>

datatype error =
    AttributeError
  | TypeError
  | KeyError string
  | IndexError
  | ContentDoesNotExist string
  | AmbiguousContentError string
  | Raised string

section \<open>cli/layout.py: WorkTask\<close>

text \<open>
  Clock readings (\<open>dt.datetime.now()\<close>) are passed in explicitly and counted in whole
  microseconds, the resolution of \<open>datetime\<close>; a \<open>timedelta\<close> is their difference.
  The fields \<open>_total_duration\<close>, \<open>_started_at\<close>, \<open>_skipped\<close>, \<open>_stopped\<close> and
  \<open>_live\<close> lose their leading underscore. \<open>live\<close> records whether a display
  object is bound: \<open>self._live.refresh()\<close> raises AttributeError on \<open>None\<close>.
  The status glyph is \<open>None\<close> after \<open>skip\<close>, as in the source.
\<close>

type_synonym time = int

record WorkTask =
  name :: string
  description :: string
  status :: "string option"
  live :: bool
  total_duration :: int
  started_at :: "time option"
  skipped :: bool
  stopped :: bool

definition WorkTask_init :: "string \<Rightarrow> string \<Rightarrow> bool \<Rightarrow> WorkTask" where
  "WorkTask_init n d rich_live =
     \<lparr>name = n, description = d, status = Some '':popcorn:'', live = rich_live,
      total_duration = 0, started_at = None, skipped = False, stopped = False\<rparr>"

text \<open>The \<open>duration\<close> property, read at clock value \<open>now\<close>.\<close>

definition duration :: "time \<Rightarrow> WorkTask \<Rightarrow> error + int" where
  "duration now t =
     (let delta = total_duration t in
      if stopped t then Inr delta
      else (case started_at t of
              None \<Rightarrow> Inl TypeError
            | Some s \<Rightarrow> Inr ((now - s) + delta)))"

definition skip :: "WorkTask \<Rightarrow> WorkTask" where
  "skip t = t\<lparr>skipped := True, status := None\<rparr>"

definition bind_display :: "bool \<Rightarrow> WorkTask \<Rightarrow> WorkTask" where
  "bind_display rich_live t = t\<lparr>live := rich_live\<rparr>"

text \<open>
  \<open>self._live.refresh()\<close>: redrawing reads every row and cannot fail once a display
  is bound; on an unbound task the attribute access raises. The task keeps the
  mutations made before the raise, so each method returns the task together with the
  exception, if any.
\<close>

definition refresh :: "WorkTask \<Rightarrow> error option" where
  "refresh t = (if live t then None else Some AttributeError)"

definition enter :: "time \<Rightarrow> WorkTask \<Rightarrow> WorkTask \<times> error option" where
  "enter now t =
     (let t1 = t\<lparr>status := Some '':fire:''\<rparr>;
          t2 = t1\<lparr>started_at := Some now\<rparr>
      in (t2, refresh t2))"

text \<open>
  \<open>__exit__\<close> receives the exception leaving the block (\<open>None\<close> on a normal exit).
  It returns \<open>None\<close>, which the \<open>with\<close> statement reads as "do not suppress".
\<close>

definition exit_task :: "error option \<Rightarrow> time \<Rightarrow> WorkTask \<Rightarrow> WorkTask \<times> error option" where
  "exit_task exc now t =
     (let t1 = (if \<not> skipped t
                then t\<lparr>status := Some (if exc = None then '':white_heavy_check_mark:''
                                        else '':cross_mark:'')\<rparr>
                else t)
      in (case started_at t1 of
            None \<Rightarrow> (t1, Some TypeError)
          | Some s \<Rightarrow>
              (let t2 = t1\<lparr>total_duration := total_duration t1 + (now - s)\<rparr>;
                   t3 = t2\<lparr>stopped := True\<rparr>
               in (t3, refresh t3))))"

text \<open>
  The \<open>with task: body\<close> statement over the two methods above. The body gets the task,
  may mutate it, and ends normally or with an exception. An exception raised by
  \<open>__enter__\<close> skips the body and \<open>__exit__\<close>; one raised by \<open>__exit__\<close> replaces the
  one in flight; otherwise the body's exception is re-raised, \<open>__exit__\<close> having
  returned \<open>None\<close>.
\<close>

definition with_task ::
  "time \<Rightarrow> (WorkTask \<Rightarrow> WorkTask \<times> error option) \<Rightarrow> time \<Rightarrow> WorkTask \<Rightarrow> WorkTask \<times> error option"
where
  "with_task t_in body t_out t =
     (case enter t_in t of
        (t1, Some e) \<Rightarrow> (t1, Some e)
      | (t1, None) \<Rightarrow>
          (case body t1 of
             (t2, exc) \<Rightarrow>
               (case exit_task exc t_out t2 of
                  (t3, Some e') \<Rightarrow> (t3, Some e')
                | (t3, None) \<Rightarrow> (t3, exc))))"

text \<open>Two bodies used below: one fails at once, one skips the task and then fails.\<close>

definition failing_body :: "WorkTask \<Rightarrow> WorkTask \<times> error option" where
  "failing_body t = (t, Some (Raised ''boom''))"

definition skip_and_fail :: "WorkTask \<Rightarrow> WorkTask \<times> error option" where
  "skip_and_fail t = (skip t, Some (Raised ''boom''))"

section \<open>Values and records of the REST API\<close>

text \<open>
  A header record is a JSON object with scalar members, read by key: a map from member
  names to values. JSON \<open>true\<close>/\<open>false\<close> are the integers 1/0, with which they
  coincide as Python dictionary keys and under \<open>==\<close>. \<open>d[k]\<close> raises KeyError on a
  missing key; \<open>m.get(k)\<close> gives \<open>None\<close>.
\<close>

datatype val = VNone | VStr string | VInt int

type_synonym dict = "string \<rightharpoonup> val"

definition getitem :: "dict \<Rightarrow> string \<Rightarrow> error + val" where
  "getitem d k = (case d k of None \<Rightarrow> Inl (KeyError k) | Some v \<Rightarrow> Inr v)"

definition dict_get :: "('k \<rightharpoonup> val) \<Rightarrow> 'k \<Rightarrow> val" where
  "dict_get m k = (case m k of None \<Rightarrow> VNone | Some v \<Rightarrow> v)"

text \<open>
  The listing endpoint \<open>_metadata.list\<close>. A request is the set of keyword arguments
  the caller passes (absent ones are \<open>None\<close>). Of the response body the code reads
  the members \<open>headers\<close> and \<open>isLastBatch\<close>; \<open>extra_members\<close> counts the other
  top-level members of the JSON object (such as \<open>debugInfo\<close>), which matter only to
  \<open>len(data)\<close>. The server is a function from requests to responses, a parameter of
  every operation.
\<close>

record list_request =
  rq_type :: "string option"
  rq_category :: "string option"
  rq_tagname :: "string list option"
  rq_batchsize :: "int option"
  rq_offset :: "int option"
  rq_fetchids :: "val list option"
  rq_pattern :: "string option"
  rq_sort :: "string option"
  rq_sortascending :: "bool option"

definition no_args :: list_request where
  "no_args = \<lparr>rq_type = None, rq_category = None, rq_tagname = None, rq_batchsize = None,
              rq_offset = None, rq_fetchids = None, rq_pattern = None, rq_sort = None,
              rq_sortascending = None\<rparr>"

record list_response =
  headers :: "dict list"
  isLastBatch :: bool
  extra_members :: nat

definition len_data :: "list_response \<Rightarrow> int" where
  "len_data data = 2 + int (extra_members data)"

section \<open>api/middlewares/metadata.py: MetadataMiddleware.all\<close>

text \<open>
  The body of \<open>for d in data['headers']\<close> for one header: register the record in the
  tracking table, then build the enriched record. In \<open>track_guids[d['id']] = d['name']\<close>
  Python evaluates the right-hand side first. The dictionary display
  \<open>{'type': .., 'context': .., **d}\<close> lets the members of \<open>d\<close> override the two
  injected ones.
\<close>

definition enrich1 ::
  "string \<Rightarrow> (val \<rightharpoonup> val) \<Rightarrow> dict \<Rightarrow> error + (val \<rightharpoonup> val) \<times> dict"
where
  "enrich1 type' track d =
     (case getitem d ''name'' of
        Inl e \<Rightarrow> Inl e
      | Inr n \<Rightarrow>
          (case getitem d ''id'' of
             Inl e \<Rightarrow> Inl e
           | Inr i \<Rightarrow>
               (let track' = track(i \<mapsto> n) in
                case (if type' = ''LOGICAL_COLUMN''
                      then (case getitem d ''owner'' of
                              Inl e \<Rightarrow> Inl e
                            | Inr ow \<Rightarrow> Inr (dict_get track' ow))
                      else Inr VNone) of
                  Inl e \<Rightarrow> Inl e
                | Inr ctx \<Rightarrow>
                    Inr (track', [''type'' \<mapsto> VStr type', ''context'' \<mapsto> ctx] ++ d))))"

fun enrich_all ::
  "string \<Rightarrow> (val \<rightharpoonup> val) \<Rightarrow> dict list \<Rightarrow> error + (val \<rightharpoonup> val) \<times> dict list"
where
  "enrich_all type' track [] = Inr (track, [])"
| "enrich_all type' track (d # ds) =
     (case enrich1 type' track d of
        Inl e \<Rightarrow> Inl e
      | Inr (track', r) \<Rightarrow>
          (case enrich_all type' track' ds of
             Inl e \<Rightarrow> Inl e
           | Inr (track'', rs) \<Rightarrow> Inr (track'', r # rs)))"

text \<open>The comprehension that drops system-authored records (lines 92 to 96).\<close>

fun exclude_system :: "dict list \<Rightarrow> error + dict list" where
  "exclude_system [] = Inr []"
| "exclude_system (answer # rest) =
     (case getitem answer ''authorName'' of
        Inl e \<Rightarrow> Inl e
      | Inr a \<Rightarrow>
          (case exclude_system rest of
             Inl e \<Rightarrow> Inl e
           | Inr kept \<Rightarrow>
               Inr (if a \<notin> {VStr ''system'', VStr ''tsadmin''} then answer # kept else kept)))"

definition filter_page :: "bool \<Rightarrow> dict list \<Rightarrow> error + dict list" where
  "filter_page exclude_system_content to_extend =
     (if exclude_system_content then exclude_system to_extend else Inr to_extend)"

text \<open>
  The state of one run: the requests issued so far (the observable effect), the
  tracking table and the collection. The \<open>while True\<close> loop may not end (a server
  that never sets \<open>isLastBatch\<close>), so it takes fuel: \<open>None\<close> is "still running when
  the fuel ran out". An exception ends the whole call.
\<close>

record all_state =
  requests :: "list_request list"
  track_guids :: "val \<rightharpoonup> val"
  content :: "dict list"

definition all_request ::
  "string \<Rightarrow> string \<Rightarrow> string list option \<Rightarrow> int \<Rightarrow> int \<Rightarrow> list_request"
where
  "all_request type' category tags chunksize offset =
     no_args\<lparr>rq_type := Some type', rq_category := Some category, rq_tagname := tags,
             rq_batchsize := Some chunksize, rq_offset := Some offset\<rparr>"

fun page_loop ::
  "nat \<Rightarrow> (list_request \<Rightarrow> list_response) \<Rightarrow> string \<Rightarrow> string \<Rightarrow> string list option \<Rightarrow>
   bool \<Rightarrow> int \<Rightarrow> int \<Rightarrow> all_state \<Rightarrow> (error + all_state) option"
where
  "page_loop 0 api type' category tags exclude_system_content chunksize offset st = None"
| "page_loop (Suc fuel) api type' category tags exclude_system_content chunksize offset st =
     (let rq = all_request type' category tags chunksize offset;
          data = api rq
      in case enrich_all type' (track_guids st) (headers data) of
           Inl e \<Rightarrow> Some (Inl e)
         | Inr (track', to_extend) \<Rightarrow>
             (let offset' = offset + int (length to_extend) in
              case filter_page exclude_system_content to_extend of
                Inl e \<Rightarrow> Some (Inl e)
              | Inr kept \<Rightarrow>
                  (let st' = \<lparr>requests = requests st @ [rq], track_guids = track',
                              content = content st @ kept\<rparr>
                   in if isLastBatch data then Some (Inr st')
                      else page_loop fuel api type' category tags exclude_system_content
                             chunksize offset' st')))"

fun types_loop ::
  "nat \<Rightarrow> (list_request \<Rightarrow> list_response) \<Rightarrow> string list \<Rightarrow> string \<Rightarrow> string list option \<Rightarrow>
   bool \<Rightarrow> int \<Rightarrow> all_state \<Rightarrow> (error + all_state) option"
where
  "types_loop fuel api [] category tags exclude_system_content chunksize st = Some (Inr st)"
| "types_loop fuel api (type' # types) category tags exclude_system_content chunksize st =
     (case page_loop fuel api type' category tags exclude_system_content chunksize 0 st of
        None \<Rightarrow> None
      | Some (Inl e) \<Rightarrow> Some (Inl e)
      | Some (Inr st') \<Rightarrow>
          types_loop fuel api types category tags exclude_system_content chunksize st')"

text \<open>
  The \<open>tags\<close> argument is absent, one string or a list; a string becomes a one-element
  list. \<open>category\<close> is the enum member's \<open>.value\<close> (the enum is declared in
  \<open>cs_tools.data.enums\<close>, which is not embedded here).
\<close>

datatype tags_arg = NoTags | OneTag string | TagList "string list"

fun norm_tags :: "tags_arg \<Rightarrow> string list option" where
  "norm_tags NoTags = None"
| "norm_tags (OneTag t) = Some [t]"
| "norm_tags (TagList ts) = Some ts"

fun join :: "string \<Rightarrow> string list \<Rightarrow> string" where
  "join sep [] = []"
| "join sep [x] = x"
| "join sep (x # y # ys) = x @ sep @ join sep (y # ys)"

definition rzn :: "string \<Rightarrow> bool \<Rightarrow> string list option \<Rightarrow> string" where
  "rzn category exclude_system_content tags =
     [CHR 0x27] @ category @ [CHR 0x27] @ '' category ('' @
     (if exclude_system_content then ''excluding '' else ''including '') @
     ''admin-generated content)'' @
     (case tags of None \<Rightarrow> [] | Some ts \<Rightarrow> '' and tags: '' @ join '', '' ts)"

definition all_types :: "bool \<Rightarrow> string list" where
  "all_types include_columns =
     [''PINBOARD_ANSWER_BOOK'', ''QUESTION_ANSWER_BOOK'', ''LOGICAL_TABLE''] @
     (if include_columns then [''LOGICAL_COLUMN''] else [])"

definition all_run ::
  "nat \<Rightarrow> (list_request \<Rightarrow> list_response) \<Rightarrow> bool \<Rightarrow> tags_arg \<Rightarrow> string \<Rightarrow> bool \<Rightarrow> int \<Rightarrow>
   (error + all_state) option"
where
  "all_run fuel api include_columns tags category exclude_system_content chunksize =
     types_loop fuel api (all_types include_columns) category (norm_tags tags)
       exclude_system_content chunksize
       \<lparr>requests = [], track_guids = Map.empty, content = []\<rparr>"

text \<open>
  \<open>all\<close> itself (the name is taken in HOL). The exception carries the reason string;
  its \<open>type\<close> argument, the empty collection, is left out.
\<close>

definition all_content ::
  "nat \<Rightarrow> (list_request \<Rightarrow> list_response) \<Rightarrow> bool \<Rightarrow> tags_arg \<Rightarrow> string \<Rightarrow> bool \<Rightarrow> int \<Rightarrow>
   (error + dict list) option"
where
  "all_content fuel api include_columns tags category exclude_system_content chunksize =
     (case all_run fuel api include_columns tags category exclude_system_content chunksize of
        None \<Rightarrow> None
      | Some (Inl e) \<Rightarrow> Some (Inl e)
      | Some (Inr st) \<Rightarrow>
          (if content st = []
           then Some (Inl (ContentDoesNotExist
                             (rzn category exclude_system_content (norm_tags tags))))
           else Some (Inr (content st))))"

section \<open>api/middlewares/metadata.py: get_edoc_object_list\<close>

text \<open>
  The enums \<open>DownloadableContent\<close> and \<open>MetadataObjectSubtype\<close> are declared in
  \<open>cs_tools.data.enums\<close>, which is not embedded here; their member values come in as parameters: the values of
  \<open>DownloadableContent\<close> in iteration order, the value of its member \<open>logical_table\<close>,
  and the values of \<open>MetadataObjectSubtype\<close>.
\<close>

record enums =
  DownloadableContent :: "string list"
  logical_table :: string
  MetadataObjectSubtype :: "string list"

definition map_subtype_to_type :: "enums \<Rightarrow> val \<Rightarrow> val" where
  "map_subtype_to_type en subtype =
     (if subtype \<in> VStr ` set (MetadataObjectSubtype en) then VStr (logical_table en)
      else subtype)"

fun map_headers :: "enums \<Rightarrow> string \<Rightarrow> dict list \<Rightarrow> error + dict list" where
  "map_headers en metadata_type [] = Inr []"
| "map_headers en metadata_type (metadata # rest) =
     (case getitem metadata ''id'' of
        Inl e \<Rightarrow> Inl e
      | Inr i \<Rightarrow>
          (let m = (if metadata_type = logical_table en
                    then [''id'' \<mapsto> i,
                          ''type'' \<mapsto> map_subtype_to_type en (dict_get metadata ''type'')]
                    else [''id'' \<mapsto> i, ''type'' \<mapsto> VStr metadata_type])
           in case map_headers en metadata_type rest of
                Inl e \<Rightarrow> Inl e
              | Inr ms \<Rightarrow> Inr (m # ms)))"

record edoc_state =
  edoc_requests :: "list_request list"
  mapped_guids :: "dict list"

definition edoc_request :: "string \<Rightarrow> int \<Rightarrow> val list \<Rightarrow> list_request" where
  "edoc_request metadata_type offset guids =
     no_args\<lparr>rq_type := Some metadata_type, rq_batchsize := Some 500,
             rq_offset := Some offset, rq_fetchids := Some guids\<rparr>"

fun edoc_page_loop ::
  "nat \<Rightarrow> (list_request \<Rightarrow> list_response) \<Rightarrow> enums \<Rightarrow> string \<Rightarrow> val list \<Rightarrow> int \<Rightarrow>
   edoc_state \<Rightarrow> (error + edoc_state) option"
where
  "edoc_page_loop 0 api en metadata_type guids offset st = None"
| "edoc_page_loop (Suc fuel) api en metadata_type guids offset st =
     (let rq = edoc_request metadata_type offset guids;
          data = api rq;
          offset' = offset + len_data data
      in case map_headers en metadata_type (headers data) of
           Inl e \<Rightarrow> Some (Inl e)
         | Inr ms \<Rightarrow>
             (let st' = \<lparr>edoc_requests = edoc_requests st @ [rq],
                         mapped_guids = mapped_guids st @ ms\<rparr>
              in if isLastBatch data then Some (Inr st')
                 else edoc_page_loop fuel api en metadata_type guids offset' st'))"

text \<open>After each type's page loop one more listing request is sent; its answer is dropped.\<close>

fun edoc_types_loop ::
  "nat \<Rightarrow> (list_request \<Rightarrow> list_response) \<Rightarrow> enums \<Rightarrow> string list \<Rightarrow> val list \<Rightarrow>
   edoc_state \<Rightarrow> (error + edoc_state) option"
where
  "edoc_types_loop fuel api en [] guids st = Some (Inr st)"
| "edoc_types_loop fuel api en (metadata_type # types) guids st =
     (case edoc_page_loop fuel api en metadata_type guids 0 st of
        None \<Rightarrow> None
      | Some (Inl e) \<Rightarrow> Some (Inl e)
      | Some (Inr st') \<Rightarrow>
          edoc_types_loop fuel api en types guids
            (st'\<lparr>edoc_requests := edoc_requests st' @ [no_args\<lparr>rq_fetchids := Some guids\<rparr>]\<rparr>))"

text \<open>
  The function gives the final state; what the Python function returns is its
  \<open>mapped_guids\<close>.
\<close>

definition get_edoc_object_list ::
  "nat \<Rightarrow> (list_request \<Rightarrow> list_response) \<Rightarrow> enums \<Rightarrow> val list \<Rightarrow> (error + edoc_state) option"
where
  "get_edoc_object_list fuel api en guids =
     (if guids = [] then Some (Inr \<lparr>edoc_requests = [], mapped_guids = []\<rparr>)
      else edoc_types_loop fuel api en (DownloadableContent en) guids
             \<lparr>edoc_requests = [], mapped_guids = []\<rparr>)"

section \<open>api/middlewares/metadata.py: the chunked operations\<close>

text \<open>
  Modelled from the spec: the helper \<open>cs_tools.util.chunks\<close>, whose source is missing.
  The spec has the ids "partitioned into fixed-size chunks", in order, the last chunk
  holding the remainder. It says nothing about a chunk size of zero, for which this
  function yields no chunk; the statements below are about positive sizes.
\<close>

function chunks :: "nat \<Rightarrow> 'a list \<Rightarrow> 'a list list" where
  "chunks n xs = (if n = 0 \<or> xs = [] then [] else take n xs # chunks n (drop n xs))"
  by pat_completeness auto
termination
  by (relation "measure (\<lambda>(n, xs). length xs)") auto

declare chunks.simps [simp del]

text \<open>
  A column of the details endpoint: its \<open>header\<close> object, if it has one, and its
  other members. The endpoint is a function from the \<open>id\<close> and \<open>showhidden\<close>
  arguments to the list under \<open>['storables']['columns']\<close> of the response.
\<close>

record column =
  col_header :: "dict option"
  col_members :: dict

type_synonym details_request = "val list \<times> bool"

fun columns_loop ::
  "(details_request \<Rightarrow> column list) \<Rightarrow> val list \<Rightarrow> bool \<Rightarrow> val list list \<Rightarrow>
   details_request list \<times> column list \<Rightarrow> details_request list \<times> column list"
where
  "columns_loop details guids include_hidden [] acc = acc"
| "columns_loop details guids include_hidden (chunk # rest) (issued, cols) =
     columns_loop details guids include_hidden rest
       (issued @ [(guids, include_hidden)], cols @ details (guids, include_hidden))"

text \<open>\<open>columns\<close> returns the requests it issued and the collected columns.\<close>

definition columns ::
  "(details_request \<Rightarrow> column list) \<Rightarrow> val list \<Rightarrow> bool \<Rightarrow> nat \<Rightarrow>
   details_request list \<times> column list"
where
  "columns details guids include_hidden chunksize =
     columns_loop details guids include_hidden (chunks chunksize guids) ([], [])"

text \<open>
  \<open>permissions\<close>. The answer of the permissions endpoint is, per queried object (in
  the order of \<open>.values()\<close>), the items of its \<open>permissions\<close> mapping: principal id
  and permission record. \<open>users\<close> is the result of \<open>self.ts.user.all()\<close>, and
  \<open>type_value\<close> and \<open>permission_type\<close> are the \<open>.value\<close> of the enum arguments.
\<close>

definition types_table :: "string \<rightharpoonup> string" where
  "types_table = map_of
     [(''FORMULA'', ''LOGICAL_COLUMN''),
      (''CALENDAR_TABLE'', ''LOGICAL_COLUMN''),
      (''LOGICAL_COLUMN'', ''LOGICAL_COLUMN''),
      (''QUESTION_ANSWER_BOOK'', ''QUESTION_ANSWER_BOOK''),
      (''PINBOARD_ANSWER_BOOK'', ''PINBOARD_ANSWER_BOOK''),
      (''ONE_TO_ONE_LOGICAL'', ''LOGICAL_TABLE''),
      (''USER_DEFINED'', ''LOGICAL_TABLE''),
      (''WORKSHEET'', ''LOGICAL_TABLE''),
      (''AGGR_WORKSHEET'', ''LOGICAL_TABLE''),
      (''MATERIALIZED_VIEW'', ''LOGICAL_TABLE''),
      (''SQL_VIEW'', ''LOGICAL_TABLE''),
      (''LOGICAL_TABLE'', ''LOGICAL_TABLE'')]"

type_synonym permissions_request = "string \<times> val list \<times> string"
type_synonym permissions_response = "(string \<times> dict) list list"

fun user_ids :: "dict list \<Rightarrow> error + val list" where
  "user_ids [] = Inr []"
| "user_ids (user # rest) =
     (case getitem user ''id'' of
        Inl e \<Rightarrow> Inl e
      | Inr i \<Rightarrow> (case user_ids rest of Inl e \<Rightarrow> Inl e | Inr is \<Rightarrow> Inr (i # is)))"

fun sharing_items :: "val list \<Rightarrow> string \<Rightarrow> (string \<times> dict) list \<Rightarrow> error + dict list" where
  "sharing_items user_guids permission_type [] = Inr []"
| "sharing_items user_guids permission_type ((shared_to_principal_guid, permission) # rest) =
     (case getitem permission ''topLevelObjectId'' of
        Inl e \<Rightarrow> Inl e
      | Inr obj \<Rightarrow>
          (case getitem permission ''shareMode'' of
             Inl e \<Rightarrow> Inl e
           | Inr mode \<Rightarrow>
               (let d = [''object_guid'' \<mapsto> obj,
                         ''permission_type'' \<mapsto> VStr permission_type,
                         ''share_mode'' \<mapsto> mode];
                    d' = (if VStr shared_to_principal_guid \<in> set user_guids
                          then d(''shared_to_user_guid'' \<mapsto> VStr shared_to_principal_guid)
                          else d(''shared_to_group_guid'' \<mapsto> VStr shared_to_principal_guid))
                in case sharing_items user_guids permission_type rest of
                     Inl e \<Rightarrow> Inl e
                   | Inr ds \<Rightarrow> Inr (d' # ds))))"

fun sharing_values :: "val list \<Rightarrow> string \<Rightarrow> permissions_response \<Rightarrow> error + dict list" where
  "sharing_values user_guids permission_type [] = Inr []"
| "sharing_values user_guids permission_type (data # rest) =
     (case sharing_items user_guids permission_type data of
        Inl e \<Rightarrow> Inl e
      | Inr ds \<Rightarrow>
          (case sharing_values user_guids permission_type rest of
             Inl e \<Rightarrow> Inl e
           | Inr ds' \<Rightarrow> Inr (ds @ ds')))"

fun permissions_loop ::
  "(permissions_request \<Rightarrow> permissions_response) \<Rightarrow> val list \<Rightarrow> string \<Rightarrow> string \<Rightarrow>
   val list list \<Rightarrow> permissions_request list \<times> dict list \<Rightarrow>
   error + permissions_request list \<times> dict list"
where
  "permissions_loop api user_guids type_value permission_type [] acc = Inr acc"
| "permissions_loop api user_guids type_value permission_type (chunk # rest) (issued, sharing_access) =
     (case types_table type_value of
        None \<Rightarrow> Inl (KeyError type_value)
      | Some ty \<Rightarrow>
          (let rq = (ty, chunk, permission_type) in
           case sharing_values user_guids permission_type (api rq) of
             Inl e \<Rightarrow> Inl e
           | Inr ds \<Rightarrow>
               permissions_loop api user_guids type_value permission_type rest
                 (issued @ [rq], sharing_access @ ds)))"

definition permissions ::
  "(permissions_request \<Rightarrow> permissions_response) \<Rightarrow> dict list \<Rightarrow> val list \<Rightarrow> string \<Rightarrow>
   string \<Rightarrow> nat \<Rightarrow> error + permissions_request list \<times> dict list"
where
  "permissions api users guids type_value permission_type chunksize =
     (case user_ids users of
        Inl e \<Rightarrow> Inl e
      | Inr user_guids \<Rightarrow>
          permissions_loop api user_guids type_value permission_type
            (chunks chunksize guids) ([], []))"

text \<open>
  \<open>dependents\<close>. The answer of the dependents endpoint is, per parent id, the items
  of a mapping from dependency type to header records. With \<open>include_columns\<close> the ids
  that get chunked are the ids of the columns of the given objects, fetched through
  \<open>columns\<close> with its default arguments.
\<close>

type_synonym dependents_request = "val list \<times> string"
type_synonym dependents_response = "(string \<times> (string \<times> dict list) list) list"

fun column_ids :: "column list \<Rightarrow> error + val list" where
  "column_ids [] = Inr []"
| "column_ids (c # rest) =
     (case col_header c of
        None \<Rightarrow> Inl (KeyError ''header'')
      | Some h \<Rightarrow>
          (case getitem h ''id'' of
             Inl e \<Rightarrow> Inl e
           | Inr i \<Rightarrow> (case column_ids rest of Inl e \<Rightarrow> Inl e | Inr is \<Rightarrow> Inr (i # is))))"

definition dependents_of_response :: "dependents_response \<Rightarrow> dict list" where
  "dependents_of_response data =
     concat (map (\<lambda>(parent_guid, all_dependencies).
       concat (map (\<lambda>(dependency_type, hs).
         map (\<lambda>header. [''parent_guid'' \<mapsto> VStr parent_guid,
                         ''type'' \<mapsto> VStr dependency_type] ++ header) hs)
         all_dependencies)) data)"

fun dependents_loop ::
  "(dependents_request \<Rightarrow> dependents_response) \<Rightarrow> string \<Rightarrow> val list list \<Rightarrow>
   dependents_request list \<times> dict list \<Rightarrow> dependents_request list \<times> dict list"
where
  "dependents_loop api type' [] acc = acc"
| "dependents_loop api type' (chunk # rest) (issued, deps) =
     dependents_loop api type' rest
       (issued @ [(chunk, type')], deps @ dependents_of_response (api (chunk, type')))"

definition dependents ::
  "(details_request \<Rightarrow> column list) \<Rightarrow> (dependents_request \<Rightarrow> dependents_response) \<Rightarrow>
   val list \<Rightarrow> bool \<Rightarrow> bool \<Rightarrow> nat \<Rightarrow>
   error + details_request list \<times> dependents_request list \<times> dict list"
where
  "dependents details api guids for_columns include_columns chunksize =
     (if include_columns
      then (case columns details guids False 50 of
              (issued, cols) \<Rightarrow>
                (case column_ids cols of
                   Inl e \<Rightarrow> Inl e
                 | Inr guids' \<Rightarrow>
                     (case dependents_loop api ''LOGICAL_COLUMN'' (chunks chunksize guids') ([], []) of
                        (rqs, deps) \<Rightarrow> Inr (issued, rqs, deps))))
      else (case dependents_loop api (if for_columns then ''LOGICAL_COLUMN'' else ''LOGICAL_TABLE'')
                   (chunks chunksize guids) ([], []) of
              (rqs, deps) \<Rightarrow> Inr ([], rqs, deps)))"

section \<open>middlewares/search.py: SearchMiddlware.__call__\<close>

text \<open>
  \<open>util.is_valid_guid\<close> is declared in \<open>cs_tools.util\<close>, which is not embedded here,
  and \<open>str.casefold\<close> is a library function: both are parameters. \<open>resolve_guid\<close> is
  the block under \<open>if not util.is_valid_guid(guid)\<close>, which replaces a name by the id
  of the one data source of that name; a valid GUID is passed on as it is. \<open>x or y\<close> gives \<open>x\<close> when it is truthy (a non-empty
  string) and \<open>y\<close> otherwise. The search endpoint maps the query, the data source id
  and the format to the \<open>data\<close> member of its response.
\<close>

definition py_or :: "string option \<Rightarrow> string option \<Rightarrow> string option" where
  "py_or x y = (case x of Some (c # cs) \<Rightarrow> x | _ \<Rightarrow> y)"

definition count_None :: "string option list \<Rightarrow> nat" where
  "count_None xs = length (filter (\<lambda>x. x = None) xs)"

fun matching_names ::
  "(string \<Rightarrow> string) \<Rightarrow> string option \<Rightarrow> dict list \<Rightarrow> error + dict list"
where
  "matching_names casefold guid [] = Inr []"
| "matching_names casefold guid (h # hs) =
     (case getitem h ''name'' of
        Inl e \<Rightarrow> Inl e
      | Inr (VStr n) \<Rightarrow>
          (case guid of
             None \<Rightarrow> Inl AttributeError
           | Some g \<Rightarrow>
               (case matching_names casefold guid hs of
                  Inl e \<Rightarrow> Inl e
                | Inr r \<Rightarrow> Inr (if casefold n = casefold g then h # r else r)))
      | Inr _ \<Rightarrow> Inl AttributeError)"

definition search_request :: "string option \<Rightarrow> list_request" where
  "search_request guid =
     no_args\<lparr>rq_type := Some ''LOGICAL_TABLE'', rq_pattern := guid,
             rq_sort := Some ''CREATED'', rq_sortascending := Some True\<rparr>"

definition resolve_guid ::
  "(string option \<Rightarrow> bool) \<Rightarrow> (string \<Rightarrow> string) \<Rightarrow> (list_request \<Rightarrow> list_response) \<Rightarrow>
   string option \<Rightarrow> error + val"
where
  "resolve_guid is_valid_guid casefold api guid =
     (if \<not> is_valid_guid guid
      then (let data = api (search_request guid) in
            if headers data = []
            then Inl (ContentDoesNotExist (case guid of None \<Rightarrow> [] | Some g \<Rightarrow> g))
            else (case matching_names casefold guid (headers data) of
                    Inl e \<Rightarrow> Inl e
                  | Inr data' \<Rightarrow>
                      if length data' > 1
                      then Inl (AmbiguousContentError (case guid of None \<Rightarrow> [] | Some g \<Rightarrow> g))
                      else (case data' of
                              [] \<Rightarrow> Inl IndexError
                            | h # _ \<Rightarrow> getitem h ''id'')))
      else Inr (case guid of None \<Rightarrow> VNone | Some g \<Rightarrow> VStr g))"

definition search ::
  "(string option \<Rightarrow> bool) \<Rightarrow> (string \<Rightarrow> string) \<Rightarrow> (list_request \<Rightarrow> list_response) \<Rightarrow>
   (string \<times> val \<times> string \<Rightarrow> dict list) \<Rightarrow>
   string \<Rightarrow> string option \<Rightarrow> string option \<Rightarrow> string option \<Rightarrow> error + dict list"
where
  "search is_valid_guid casefold api searchdata query worksheet table view =
     (if count_None [worksheet, table, view] = 3 then Inl TypeError
      else if count_None [worksheet, table, view] \<noteq> 2 then Inl TypeError
      else (case resolve_guid is_valid_guid casefold api (py_or (py_or worksheet table) view) of
              Inl e \<Rightarrow> Inl e
            | Inr guid \<Rightarrow> Inr (searchdata (query, guid, ''FULL''))))"

section \<open>Sample data\<close>

text \<open>Two header records: a worksheet by a user, and an answer by a system account.\<close>

definition worksheet_header :: dict where
  "worksheet_header = [''id'' \<mapsto> VStr ''t1'', ''name'' \<mapsto> VStr ''Sales'',
     ''authorName'' \<mapsto> VStr ''alice'', ''type'' \<mapsto> VStr ''WORKSHEET'']"

definition answer_header :: dict where
  "answer_header = [''id'' \<mapsto> VStr ''a1'', ''name'' \<mapsto> VStr ''Top ten'',
     ''authorName'' \<mapsto> VStr ''tsadmin'']"

text \<open>
  Three servers: one with no content at all, one whose only content is the two
  records above among the logical tables, and one that answers the request at
  offset 0 with a first page of three records and any other request with an empty
  last page. \<open>sample_enums\<close> instantiates the enum parameters.
\<close>

definition empty_api :: "list_request \<Rightarrow> list_response" where
  "empty_api rq = \<lparr>headers = [], isLastBatch = True, extra_members = 0\<rparr>"

definition tables_api :: "list_request \<Rightarrow> list_response" where
  "tables_api rq =
     (if rq_type rq = Some ''LOGICAL_TABLE''
      then \<lparr>headers = [worksheet_header, answer_header], isLastBatch = True, extra_members = 0\<rparr>
      else \<lparr>headers = [], isLastBatch = True, extra_members = 0\<rparr>)"

definition item :: "string \<Rightarrow> dict" where
  "item g = [''id'' \<mapsto> VStr g, ''name'' \<mapsto> VStr g, ''authorName'' \<mapsto> VStr ''alice'']"

definition paged_api :: "list_request \<Rightarrow> list_response" where
  "paged_api rq =
     (if rq_offset rq = Some 0
      then \<lparr>headers = [item ''a'', item ''b'', item ''c''], isLastBatch = False, extra_members = 0\<rparr>
      else \<lparr>headers = [], isLastBatch = True, extra_members = 0\<rparr>)"

definition sample_enums :: enums where
  "sample_enums =
     \<lparr>DownloadableContent = [''QUESTION_ANSWER_BOOK'', ''PINBOARD_ANSWER_BOOK'', ''LOGICAL_TABLE''],
      logical_table = ''LOGICAL_TABLE'',
      MetadataObjectSubtype = [''WORKSHEET'', ''USER_DEFINED'']\<rparr>"

text \<open>The offsets of the requests a finished run has issued, in order.\<close>

definition edoc_offsets :: "(error + edoc_state) option \<Rightarrow> int option list" where
  "edoc_offsets r = (case r of Some (Inr st) \<Rightarrow> map rq_offset (edoc_requests st) | _ \<Rightarrow> [])"

definition all_offsets :: "(error + all_state) option \<Rightarrow> int option list" where
  "all_offsets r = (case r of Some (Inr st) \<Rightarrow> map rq_offset (requests st) | _ \<Rightarrow> [])"

text \<open>
  For the search operation: a case folding of the ASCII letters, a validity test that
  rejects every name, a listing that always answers with the worksheet above, and a
  search endpoint with no rows.
\<close>

definition ascii_casefold :: "string \<Rightarrow> string" where
  "ascii_casefold s =
     map (\<lambda>c. if 65 \<le> (of_char c :: nat) \<and> (of_char c :: nat) \<le> 90
               then char_of ((of_char c :: nat) + 32) else c) s"

definition never_guid :: "string option \<Rightarrow> bool" where
  "never_guid g = False"

definition names_api :: "list_request \<Rightarrow> list_response" where
  "names_api rq = \<lparr>headers = [worksheet_header], isLastBatch = True, extra_members = 0\<rparr>"

definition no_data :: "string \<times> val \<times> string \<Rightarrow> dict list" where
  "no_data rq = []"

text \<open>
  For the tracking table: \<open>tracked track ds\<close> is the table \<open>track\<close> after the ids
  and names of the headers \<open>ds\<close> have been entered in order. Two column headers,
  one that names itself as its owner and one owned by the worksheet above; a server
  whose only content is the first of them; the \<open>context\<close> members of a result; and
  the headers a finished run has fetched, in fetch order.
\<close>

definition tracked :: "(val \<rightharpoonup> val) \<Rightarrow> dict list \<Rightarrow> (val \<rightharpoonup> val)" where
  "tracked track ds = fold (\<lambda>d t. t(the (d ''id'') \<mapsto> the (d ''name''))) ds track"

definition revenue_column :: dict where
  "revenue_column = [''id'' \<mapsto> VStr ''c1'', ''name'' \<mapsto> VStr ''Revenue'',
     ''owner'' \<mapsto> VStr ''c1'', ''authorName'' \<mapsto> VStr ''alice'']"

definition region_column :: dict where
  "region_column = [''id'' \<mapsto> VStr ''c2'', ''name'' \<mapsto> VStr ''Region'',
     ''owner'' \<mapsto> VStr ''t1'', ''authorName'' \<mapsto> VStr ''alice'']"

definition columns_api :: "list_request \<Rightarrow> list_response" where
  "columns_api rq =
     (if rq_type rq = Some ''LOGICAL_COLUMN''
      then \<lparr>headers = [revenue_column], isLastBatch = True, extra_members = 0\<rparr>
      else \<lparr>headers = [], isLastBatch = True, extra_members = 0\<rparr>)"

definition contexts :: "(error + dict list) option \<Rightarrow> val option list" where
  "contexts r = (case r of Some (Inr c) \<Rightarrow> map (\<lambda>d. d ''context'') c | _ \<Rightarrow> [])"

definition fetched :: "(list_request \<Rightarrow> list_response) \<Rightarrow> (error + all_state) option \<Rightarrow> dict list" where
  "fetched api r =
     (case r of Some (Inr st) \<Rightarrow> concat (map (\<lambda>rq. headers (api rq)) (requests st)) | _ \<Rightarrow> [])"

text \<open>
  What the spec says of a run, to compare the loops with. \<open>typed_headers\<close> lists the
  headers a run has fetched, in fetch order, each with the type it was requested
  under. \<open>context_at recs i\<close> is the context the spec gives record \<open>i\<close>: \<open>None\<close>
  unless it is a column; for a column, the name that the table of the records up to and
  including \<open>i\<close> holds for its owner. \<open>enriched_at recs i\<close> is the record with that
  context, and \<open>keeps\<close> is the exclusion filter. \<open>run_inv\<close> puts them together: the
  state of a run agrees with the spec on the headers fetched so far.
\<close>

definition typed_headers :: "(list_request \<Rightarrow> list_response) \<Rightarrow> list_request list \<Rightarrow> (string \<times> dict) list" where
  "typed_headers api rqs =
     concat (map (\<lambda>rq. map (Pair (the (rq_type rq))) (headers (api rq))) rqs)"

definition context_at :: "(string \<times> dict) list \<Rightarrow> nat \<Rightarrow> val" where
  "context_at recs i =
     (if fst (recs ! i) = ''LOGICAL_COLUMN''
      then dict_get (tracked Map.empty (map snd (take (Suc i) recs))) (the (snd (recs ! i) ''owner''))
      else VNone)"

definition enriched_at :: "(string \<times> dict) list \<Rightarrow> nat \<Rightarrow> dict" where
  "enriched_at recs i =
     [''type'' \<mapsto> VStr (fst (recs ! i)), ''context'' \<mapsto> context_at recs i] ++ snd (recs ! i)"

definition keeps :: "bool \<Rightarrow> dict \<Rightarrow> bool" where
  "keeps ex r = (ex \<longrightarrow> r ''authorName'' \<noteq> Some (VStr ''system'') \<and>
                        r ''authorName'' \<noteq> Some (VStr ''tsadmin''))"

definition run_inv :: "(list_request \<Rightarrow> list_response) \<Rightarrow> bool \<Rightarrow> all_state \<Rightarrow> bool" where
  "run_inv api ex st =
     (track_guids st = tracked Map.empty (map snd (typed_headers api (requests st))) \<and>
      (\<forall>d\<in>set (map snd (typed_headers api (requests st))). d ''id'' \<noteq> None) \<and>
      content st = filter (keeps ex)
        (map (enriched_at (typed_headers api (requests st)))
           [0..<length (typed_headers api (requests st))]))"

text \<open>
  A column whose owner is never fetched, and a server with the worksheet among the
  logical tables and two columns, the first owned by the worksheet.
\<close>

definition orphan_column :: dict where
  "orphan_column = [''id'' \<mapsto> VStr ''c3'', ''name'' \<mapsto> VStr ''Margin'',
     ''owner'' \<mapsto> VStr ''t9'', ''authorName'' \<mapsto> VStr ''alice'']"

definition model_api :: "list_request \<Rightarrow> list_response" where
  "model_api rq =
     (if rq_type rq = Some ''LOGICAL_TABLE''
      then \<lparr>headers = [worksheet_header], isLastBatch = True, extra_members = 0\<rparr>
      else if rq_type rq = Some ''LOGICAL_COLUMN''
      then \<lparr>headers = [region_column, orphan_column], isLastBatch = True, extra_members = 0\<rparr>
      else \<lparr>headers = [], isLastBatch = True, extra_members = 0\<rparr>)"

section \<open>Properties of WorkTask\<close>

lemma exit_task_keeps_skipped_glyph:
  "skipped t \<Longrightarrow> status (fst (exit_task exc now t)) = status t"
  by (simp add: exit_task_def Let_def split: option.splits)

lemma skip_clears_glyph: "status (skip t) = None \<and> skipped (skip t)"
  by (simp add: skip_def)

text \<open>
  C2. A task skipped before it is ever started has no glyph, and the spec says no later
  start or stop changes that. \<open>__exit__\<close> honours \<open>_skipped\<close>
  (\<open>exit_task_keeps_skipped_glyph\<close>), but \<open>__enter__\<close> assigns the running glyph
  unconditionally: entering a freshly skipped task shows \<open>:fire:\<close>, and the following
  exit leaves that glyph in place.
\<close>

theorem skip_then_enter_shows_running_glyph:
  "status (skip (WorkTask_init n d True)) = None \<and>
   status (fst (enter now (skip (WorkTask_init n d True)))) = Some '':fire:'' \<and>
   status (fst (exit_task None now' (fst (enter now (skip (WorkTask_init n d True)))))) = Some '':fire:''"
  by (simp add: skip_def enter_def exit_task_def WorkTask_init_def refresh_def Let_def)

text \<open>
  C7 as stated: every task whose block exits with an error ends with the failure
  glyph. It fails for a task skipped inside its block: the guard in \<open>__exit__\<close>
  leaves the cleared glyph alone.
\<close>

theorem failure_glyph_counterexample:
  "status (fst (with_task 0 skip_and_fail 5 (WorkTask_init ''a'' ''b'' True))) \<noteq> Some '':cross_mark:'' \<and>
   snd (with_task 0 skip_and_fail 5 (WorkTask_init ''a'' ''b'' True)) = Some (Raised ''boom'')"
  by (simp add: with_task_def skip_and_fail_def skip_def enter_def exit_task_def
      WorkTask_init_def refresh_def Let_def)

text \<open>
  C7, amended. A task's block exits with an error \<open>e\<close>, the display bound and the
  start time set as \<open>__enter__\<close> left them. Then the \<open>with\<close> statement ends with that
  same error \<open>e\<close>, the task is stopped, and the time since the start has been added
  to the total, whether the task was skipped or not. The glyph is the failure glyph
  unless the task is marked skipped at that point; then it is left as the block left it.
\<close>

theorem failing_task_propagates:
  assumes "live t"
    and "body (fst (enter t_in t)) = (t2, Some e)"
    and "live t2" and "started_at t2 = Some t_in"
  shows "snd (with_task t_in body t_out t) = Some e \<and>
         status (fst (with_task t_in body t_out t)) =
           (if skipped t2 then status t2 else Some '':cross_mark:'') \<and>
         stopped (fst (with_task t_in body t_out t)) \<and>
         total_duration (fst (with_task t_in body t_out t)) = total_duration t2 + (t_out - t_in)"
  using assms
  by (simp add: with_task_def enter_def exit_task_def refresh_def Let_def)

theorem failing_task_propagates_witness:
  "snd (with_task 2 failing_body 7 (WorkTask_init ''a'' ''b'' True)) = Some (Raised ''boom'') \<and>
   status (fst (with_task 2 failing_body 7 (WorkTask_init ''a'' ''b'' True))) = Some '':cross_mark:'' \<and>
   stopped (fst (with_task 2 failing_body 7 (WorkTask_init ''a'' ''b'' True))) \<and>
   total_duration (fst (with_task 2 failing_body 7 (WorkTask_init ''a'' ''b'' True))) = 5 \<and>
   snd (with_task 2 skip_and_fail 7 (WorkTask_init ''a'' ''b'' True)) = Some (Raised ''boom'') \<and>
   status (fst (with_task 2 skip_and_fail 7 (WorkTask_init ''a'' ''b'' True))) = None \<and>
   stopped (fst (with_task 2 skip_and_fail 7 (WorkTask_init ''a'' ''b'' True))) \<and>
   total_duration (fst (with_task 2 skip_and_fail 7 (WorkTask_init ''a'' ''b'' True))) = 5"
  using failing_task_propagates [of "WorkTask_init ''a'' ''b'' True" failing_body 2
      "fst (enter 2 (WorkTask_init ''a'' ''b'' True))" "Raised ''boom''" 7]
    failing_task_propagates [of "WorkTask_init ''a'' ''b'' True" skip_and_fail 2
      "skip (fst (enter 2 (WorkTask_init ''a'' ''b'' True)))" "Raised ''boom''" 7]
  by (simp add: failing_body_def skip_and_fail_def skip_def enter_def WorkTask_init_def
      refresh_def Let_def)

lemma duration_first_cycle_running:
  "duration now (fst (enter t0 (WorkTask_init n d True))) = Inr (now - t0)"
  by (simp add: duration_def enter_def WorkTask_init_def Let_def)

lemma duration_frozen_after_stop:
  "stopped t \<Longrightarrow> duration now t = Inr (total_duration t)"
  by (simp add: duration_def)

text \<open>
  C8. The spec has the displayed duration of a running task equal to
  \<open>(now - start) + accumulated\<close>, also in a second start/stop cycle. \<open>__enter__\<close>
  never resets \<open>_stopped\<close>, so from the first stop on the property returns the
  accumulated total alone: a task run from 0 to 5 and re-entered at 10 shows 5 at
  every later clock value (at 12 the spec asks for 7), although the second exit still
  adds the second interval to the total.
\<close>

theorem duration_frozen_in_second_cycle:
  "duration now (fst (enter 10 (fst (exit_task None 5 (fst (enter 0 (WorkTask_init n d True))))))) = Inr 5 \<and>
   duration 12 (fst (enter 10 (fst (exit_task None 5 (fst (enter 0 (WorkTask_init n d True))))))) \<noteq> Inr ((12 - 10) + 5) \<and>
   total_duration (fst (exit_task None 12 (fst (enter 10 (fst (exit_task None 5 (fst (enter 0 (WorkTask_init n d True))))))))) = 7"
  by (simp add: duration_def enter_def exit_task_def WorkTask_init_def refresh_def Let_def)

section \<open>Properties of the chunked operations\<close>

lemma chunks_zero: "chunks 0 xs = []"
  by (subst chunks.simps) simp

lemma chunks_Nil: "chunks n [] = []"
  by (subst chunks.simps) simp

lemma chunks_step:
  "0 < n \<Longrightarrow> xs \<noteq> [] \<Longrightarrow> chunks n xs = take n xs # chunks n (drop n xs)"
  by (subst chunks.simps) simp

lemma concat_chunks: "0 < n \<Longrightarrow> concat (chunks n xs) = xs"
proof (induction n xs rule: chunks.induct)
  case (1 n xs)
  show ?case
  proof (cases "xs = []")
    case True
    then show ?thesis by (simp add: chunks_Nil)
  next
    case False
    with 1 show ?thesis by (simp add: chunks_step)
  qed
qed

lemma ceil_div_small: "0 < (k::nat) \<Longrightarrow> k \<le> n \<Longrightarrow> (k + n - 1) div n = 1"
proof -
  assume a: "0 < k" "k \<le> n"
  then have "n \<le> k + n - 1" and "k + n - 1 < n + n" by arith+
  then have "(k + n - 1) div n = (k + n - 1 - n) div n + 1" using a
    by (simp add: le_div_geq)
  moreover have "k + n - 1 - n < n" using a by arith
  ultimately show ?thesis by simp
qed

lemma ceil_div_step:
  "0 < (n::nat) \<Longrightarrow> n < k \<Longrightarrow> (k + n - 1) div n = Suc ((k - n + n - 1) div n)"
proof -
  assume a: "0 < n" "n < k"
  then have "n \<le> k + n - 1" by arith
  then have "(k + n - 1) div n = Suc ((k + n - 1 - n) div n)" using a
    by (simp add: le_div_geq)
  moreover have "k + n - 1 - n = k - n + n - 1" using a by arith
  ultimately show ?thesis by simp
qed

text \<open>The number of chunks is the quotient rounded up.\<close>

lemma length_chunks: "0 < n \<Longrightarrow> length (chunks n xs) = (length xs + n - 1) div n"
proof (induction n xs rule: chunks.induct)
  case (1 n xs)
  show ?case
  proof (cases "xs = []")
    case True
    then show ?thesis using 1(2) by (simp add: chunks_Nil)
  next
    case False
    note ne = this
    show ?thesis
    proof (cases "length xs \<le> n")
      case True
      then have "drop n xs = []" by simp
      moreover have "(length xs + n - 1) div n = 1"
        using ceil_div_small [of "length xs" n] ne True by simp
      ultimately show ?thesis using ne 1(2) by (simp add: chunks_step chunks_Nil)
    next
      case False
      then have "(length xs + n - 1) div n = Suc ((length xs - n + n - 1) div n)"
        using ceil_div_step [of n "length xs"] 1(2) by simp
      moreover have "length (chunks n (drop n xs)) = (length xs - n + n - 1) div n"
        using 1 ne by simp
      ultimately show ?thesis using ne 1(2) by (simp add: chunks_step)
    qed
  qed
qed

lemma columns_loop_acc:
  "columns_loop details guids ih cs (issued, cols) =
     (issued @ replicate (length cs) (guids, ih),
      cols @ concat (replicate (length cs) (details (guids, ih))))"
  by (induction cs arbitrary: issued cols) (simp_all add: replicate_app_Cons_same)

text \<open>
  \<open>columns\<close> sends one request per chunk, and every one of them carries the whole
  id list.
\<close>

lemma columns_requests:
  "fst (columns details guids ih n) = replicate (length (chunks n guids)) (guids, ih)"
  by (simp add: columns_def columns_loop_acc)

text \<open>
  \<open>dependents\<close> sends one request per chunk, carrying the chunk, and concatenates the
  answers in chunk order.
\<close>

lemma dependents_loop_acc:
  "dependents_loop api ty cs (issued, deps) =
     (issued @ map (\<lambda>c. (c, ty)) cs,
      deps @ concat (map (\<lambda>c. dependents_of_response (api (c, ty))) cs))"
  by (induction cs arbitrary: issued deps) simp_all

text \<open>So does \<open>permissions\<close>, when it returns.\<close>

lemma permissions_loop_acc:
  "permissions_loop api ug tv pt cs (issued, acc) = Inr (issued', acc') \<Longrightarrow>
   \<exists>ty. (cs \<noteq> [] \<longrightarrow> types_table tv = Some ty) \<and>
        issued' = issued @ map (\<lambda>c. (the (types_table tv), c, pt)) cs \<and>
        (\<exists>rs. length rs = length cs \<and>
              (\<forall>i<length cs. sharing_values ug pt (api (the (types_table tv), cs ! i, pt)) = Inr (rs ! i)) \<and>
              acc' = acc @ concat rs)"
proof (induction cs arbitrary: issued acc)
  case Nil
  then show ?case by simp
next
  case (Cons c cs)
  from Cons.prems obtain ty ds where ty: "types_table tv = Some ty"
    and ds: "sharing_values ug pt (api (ty, c, pt)) = Inr ds"
    and rest: "permissions_loop api ug tv pt cs (issued @ [(ty, c, pt)], acc @ ds) = Inr (issued', acc')"
    by (auto simp: Let_def split: option.splits sum.splits)
  from Cons.IH [OF rest] obtain rs where
    i': "issued' = (issued @ [(ty, c, pt)]) @ map (\<lambda>c. (the (types_table tv), c, pt)) cs"
    and len: "length rs = length cs"
    and each: "\<forall>i<length cs. sharing_values ug pt (api (the (types_table tv), cs ! i, pt)) = Inr (rs ! i)"
    and acc': "acc' = (acc @ ds) @ concat rs"
    by blast
  have "\<forall>i<length (c # cs). sharing_values ug pt (api (the (types_table tv), (c # cs) ! i, pt)) = Inr ((ds # rs) ! i)"
    using each ds ty by (auto simp: nth_Cons split: nat.splits)
  moreover have "length (ds # rs) = length (c # cs)" using len by simp
  moreover have "acc' = acc @ concat (ds # rs)" using acc' by simp
  ultimately show ?case using ty i' by (intro exI[of _ ty]) (auto intro!: exI[of _ "ds # rs"])
qed

text \<open>
  C1. The spec has each request of a chunked operation carry only the ids of its own
  chunk. \<open>permissions\<close> and \<open>dependents\<close> pass \<open>id=chunk\<close>; \<open>columns\<close> passes
  \<open>id=guids\<close>, the whole list, once per chunk. For three ids and chunk size 2 the chunks
  are \<open>[a, b]\<close> and \<open>[c]\<close>, yet both requests carry \<open>[a, b, c]\<close>, and the result is
  the answer for all three ids twice over.
\<close>

theorem columns_requests_carry_every_id:
  "chunks 2 [VStr ''a'', VStr ''b'', VStr ''c''] = [[VStr ''a'', VStr ''b''], [VStr ''c'']] \<and>
   fst (columns details [VStr ''a'', VStr ''b'', VStr ''c''] False 2) =
     [([VStr ''a'', VStr ''b'', VStr ''c''], False), ([VStr ''a'', VStr ''b'', VStr ''c''], False)] \<and>
   snd (columns details [VStr ''a'', VStr ''b'', VStr ''c''] False 2) =
     details ([VStr ''a'', VStr ''b'', VStr ''c''], False) @
     details ([VStr ''a'', VStr ''b'', VStr ''c''], False)"
  by (simp add: columns_def chunks_step chunks_Nil)

section \<open>Properties of the enrichment\<close>

lemma enrich1_shape:
  "enrich1 ty track d = Inr (track', r) \<Longrightarrow>
   \<exists>n g ctx. d ''name'' = Some n \<and> d ''id'' = Some g \<and> track' = track(g \<mapsto> n) \<and>
     r = [''type'' \<mapsto> VStr ty, ''context'' \<mapsto> ctx] ++ d \<and>
     (if ty = ''LOGICAL_COLUMN''
      then (\<exists>ow. d ''owner'' = Some ow \<and> ctx = dict_get track' ow)
      else ctx = VNone)"
  by (auto simp: enrich1_def getitem_def Let_def split: option.splits sum.splits if_splits)

lemma enrich_all_length:
  "enrich_all ty track ds = Inr (track', rs) \<Longrightarrow> length rs = length ds"
  by (induction ds arbitrary: track rs) (auto split: sum.splits prod.splits)

lemma enrich_all_nth:
  "enrich_all ty track ds = Inr (track', rs) \<Longrightarrow> i < length ds \<Longrightarrow>
   \<exists>ctx. rs ! i = [''type'' \<mapsto> VStr ty, ''context'' \<mapsto> ctx] ++ (ds ! i)"
proof (induction ds arbitrary: track rs i)
  case Nil
  then show ?case by simp
next
  case (Cons d ds)
  from Cons.prems(1) obtain t1 r rs' where
    one: "enrich1 ty track d = Inr (t1, r)" and
    rest: "enrich_all ty t1 ds = Inr (track', rs')" and rs: "rs = r # rs'"
    by (auto split: sum.splits prod.splits)
  show ?case
  proof (cases i)
    case 0
    from enrich1_shape [OF one] obtain ctx where
      r: "r = [''type'' \<mapsto> VStr ty, ''context'' \<mapsto> ctx] ++ d" by blast
    have "rs ! i = r" and "(d # ds) ! i = d" using 0 rs by simp_all
    with r show ?thesis by metis
  next
    case (Suc j)
    then have j: "j < length ds" and "rs ! i = rs' ! j" and "(d # ds) ! i = ds ! j"
      using Cons.prems(2) rs by simp_all
    with Cons.IH [OF rest j] show ?thesis by metis
  qed
qed




section \<open>Properties of the system-content filter\<close>

lemma exclude_system_char:
  "exclude_system recs =
     (if \<forall>a\<in>set recs. a ''authorName'' \<noteq> None
      then Inr (filter (\<lambda>a. a ''authorName'' \<noteq> Some (VStr ''system'') \<and>
                            a ''authorName'' \<noteq> Some (VStr ''tsadmin'')) recs)
      else Inl (KeyError ''authorName''))"
  by (induction recs) (auto simp: getitem_def split: option.splits)



section \<open>Properties of the aggregation\<close>

lemma sublist_join: "t \<in> set ts \<Longrightarrow> sublist t (join sep ts)"
proof (induction sep ts rule: join.induct)
  case (1 sep)
  then show ?case by simp
next
  case (2 sep x)
  then show ?case by simp
next
  case (3 sep x y ys)
  show ?case
  proof (cases "t = x")
    case True
    then show ?thesis by simp
  next
    case False
    with 3 have "sublist t (join sep (y # ys))" by simp
    then have "sublist t ((x @ sep) @ join sep (y # ys))" by (simp add: sublist_append)
    then show ?thesis by simp
  qed
qed

lemma rzn_parts:
  "sublist category (rzn category ex tg)"
  "sublist (if ex then ''excluding'' else ''including'') (rzn category ex tg)"
  "tg = Some ts \<Longrightarrow> sublist (join '', '' ts) (rzn category ex tg)"
proof -
  show "sublist category (rzn category ex tg)"
    unfolding rzn_def by (rule sublist_appendI)
  have "\<exists>ss. rzn category ex tg =
      ([CHR 0x27] @ category @ [CHR 0x27] @ '' category ('') @
      (if ex then ''excluding'' else ''including'') @ ss"
    by (simp add: rzn_def)
  then show "sublist (if ex then ''excluding'' else ''including'') (rzn category ex tg)"
    using sublist_appendI by metis
  assume "tg = Some ts"
  then have "\<exists>ps. rzn category ex tg = ps @ join '', '' ts @ []"
    by (simp add: rzn_def)
  then show "sublist (join '', '' ts) (rzn category ex tg)"
    using sublist_appendI by metis
qed

text \<open>
  C4. When the loops of \<open>all\<close> finish with state \<open>st\<close>, the call raises
  ContentDoesNotExist exactly when the collection is empty, and returns the collection
  otherwise. The reason string holds the category, the word \<open>excluding\<close> or
  \<open>including\<close> according to the flag, and, when tags were given, the tags joined by
  commas (hence every tag).
\<close>

theorem empty_collection_raises:
  assumes "all_run fuel api include_columns tags category ex chunksize = Some (Inr st)"
  shows "all_content fuel api include_columns tags category ex chunksize =
           Some (if content st = []
                 then Inl (ContentDoesNotExist (rzn category ex (norm_tags tags)))
                 else Inr (content st)) \<and>
         sublist category (rzn category ex (norm_tags tags)) \<and>
         sublist (if ex then ''excluding'' else ''including'') (rzn category ex (norm_tags tags)) \<and>
         (\<forall>ts. norm_tags tags = Some ts \<longrightarrow>
            sublist (join '', '' ts) (rzn category ex (norm_tags tags)) \<and>
            (\<forall>t\<in>set ts. sublist t (rzn category ex (norm_tags tags))))"
proof -
  have "all_content fuel api include_columns tags category ex chunksize =
           Some (if content st = []
                 then Inl (ContentDoesNotExist (rzn category ex (norm_tags tags)))
                 else Inr (content st))"
    using assms by (simp add: all_content_def)
  moreover have "\<forall>ts. norm_tags tags = Some ts \<longrightarrow>
            sublist (join '', '' ts) (rzn category ex (norm_tags tags)) \<and>
            (\<forall>t\<in>set ts. sublist t (rzn category ex (norm_tags tags)))"
    using rzn_parts(3) sublist_join sublist_order.order_trans by metis
  ultimately show ?thesis using rzn_parts(1,2) by blast
qed

lemma empty_run:
  "\<exists>st. all_run (Suc 0) empty_api False (TagList [''finance'', ''q3'']) ''ALL'' True 500 = Some (Inr st)
        \<and> content st = []"
  by (simp add: all_run_def all_types_def empty_api_def filter_page_def Let_def)

lemma tables_run:
  "\<exists>st. all_run (Suc 0) tables_api False NoTags ''ALL'' True 500 = Some (Inr st)
        \<and> content st = [[''type'' \<mapsto> VStr ''LOGICAL_TABLE'', ''context'' \<mapsto> VNone] ++ worksheet_header]"
  by (simp add: all_run_def all_types_def tables_api_def filter_page_def Let_def all_request_def
      no_args_def enrich1_def getitem_def worksheet_header_def answer_header_def)

theorem empty_collection_raises_witness:
  "all_content (Suc 0) empty_api False (TagList [''finance'', ''q3'']) ''ALL'' True 500 =
     Some (Inl (ContentDoesNotExist
       ([CHR 0x27] @ ''ALL'' @ [CHR 0x27] @
        '' category (excluding admin-generated content) and tags: finance, q3''))) \<and>
   all_content (Suc 0) tables_api False NoTags ''ALL'' True 500 =
     Some (Inr [[''type'' \<mapsto> VStr ''LOGICAL_TABLE'', ''context'' \<mapsto> VNone] ++ worksheet_header])"
proof -
  from empty_run obtain st where
    st: "all_run (Suc 0) empty_api False (TagList [''finance'', ''q3'']) ''ALL'' True 500 = Some (Inr st)"
    and c: "content st = []" by blast
  from tables_run obtain st' where
    st': "all_run (Suc 0) tables_api False NoTags ''ALL'' True 500 = Some (Inr st')"
    and c': "content st' = [[''type'' \<mapsto> VStr ''LOGICAL_TABLE'', ''context'' \<mapsto> VNone] ++ worksheet_header]"
    by blast
  show ?thesis
    using empty_collection_raises [OF st] empty_collection_raises [OF st'] c c'
    by (simp add: rzn_def)
qed

section \<open>Properties of the page offsets\<close>

text \<open>
  In \<open>all\<close>, a page that is not the last is followed by a request whose offset is
  larger by the number of records the server returned, whatever the filter keeps.
\<close>

lemma page_loop_next_offset:
  assumes "enrich_all ty (track_guids st) (headers (api (all_request ty cat tags cs offset))) = Inr (tr, ext)"
    and "filter_page ex ext = Inr kept"
    and "\<not> isLastBatch (api (all_request ty cat tags cs offset))"
  shows "page_loop (Suc fuel) api ty cat tags ex cs offset st =
         page_loop fuel api ty cat tags ex cs
           (offset + int (length (headers (api (all_request ty cat tags cs offset)))))
           \<lparr>requests = requests st @ [all_request ty cat tags cs offset],
            track_guids = tr, content = content st @ kept\<rparr>"
  using assms enrich_all_length [OF assms(1)] by (simp add: Let_def)

text \<open>
  In \<open>get_edoc_object_list\<close> the next offset is larger by \<open>len(data)\<close>, the number of
  members of the response object.
\<close>

lemma edoc_page_loop_next_offset:
  assumes "map_headers en ty (headers (api (edoc_request ty offset guids))) = Inr ms"
    and "\<not> isLastBatch (api (edoc_request ty offset guids))"
  shows "edoc_page_loop (Suc fuel) api en ty guids offset st =
         edoc_page_loop fuel api en ty guids
           (offset + len_data (api (edoc_request ty offset guids)))
           \<lparr>edoc_requests = edoc_requests st @ [edoc_request ty offset guids],
            mapped_guids = mapped_guids st @ ms\<rparr>"
  using assms by (simp add: Let_def)

text \<open>
  C3. The spec has every page loop advance its offset by the number of records just
  fetched. \<open>all\<close> does (\<open>page_loop_next_offset\<close>); \<open>get_edoc_object_list\<close> adds
  \<open>len(data)\<close>, where \<open>data\<close> is the response object, not its \<open>headers\<close> list. Against
  a server whose first page holds three records, \<open>all\<close> asks for offset 3 next, while
  \<open>get_edoc_object_list\<close> asks for offset 2 (the response has the two members
  \<open>headers\<close> and \<open>isLastBatch\<close>). The requests without offset are the extra listing
  request after each type.
\<close>

theorem edoc_offset_advances_by_member_count:
  "length (headers (paged_api (edoc_request ''QUESTION_ANSWER_BOOK'' 0 [VStr ''a'']))) = 3 \<and>
   edoc_offsets (get_edoc_object_list 2 paged_api sample_enums [VStr ''a'']) =
     [Some 0, Some 2, None, Some 0, Some 2, None, Some 0, Some 2, None] \<and>
   all_offsets (all_run 2 paged_api False NoTags ''ALL'' True 500) =
     [Some 0, Some 3, Some 0, Some 3, Some 0, Some 3]"
  by (simp add: edoc_offsets_def get_edoc_object_list_def sample_enums_def numeral_2_eq_2
      paged_api_def edoc_request_def no_args_def item_def getitem_def len_data_def Let_def
      dict_get_def map_subtype_to_type_def all_offsets_def all_run_def all_types_def
      all_request_def enrich1_def filter_page_def)

section \<open>Properties of the search operation\<close>

text \<open>
  When every header has a string name, the comprehension keeps the headers whose name
  equals the given one up to case folding.
\<close>

lemma matching_names_filter:
  "\<forall>h\<in>set hs. \<exists>n. h ''name'' = Some (VStr n) \<Longrightarrow>
   matching_names casefold (Some g) hs =
     Inr (filter (\<lambda>h. \<exists>n. h ''name'' = Some (VStr n) \<and> casefold n = casefold g) hs)"
  by (induction hs) (auto simp: getitem_def)

text \<open>
  C10. Exactly one of the three selectors is given and it is the name \<open>g\<close>, which is
  not a valid GUID; the pattern listing returns headers, each with a name, none equal
  to \<open>g\<close> up to case folding. Then the filtered list is empty, the ambiguity test
  passes it, and \<open>data[0]\<close> raises IndexError: neither ContentDoesNotExist nor
  AmbiguousContentError.
\<close>

theorem unmatched_name_raises_IndexError:
  assumes "count_None [worksheet, table, view] = 2"
    and "py_or (py_or worksheet table) view = Some g"
    and "\<not> is_valid_guid (Some g)"
    and "headers (api (search_request (Some g))) \<noteq> []"
    and "\<forall>h\<in>set (headers (api (search_request (Some g)))).
           \<exists>n. h ''name'' = Some (VStr n) \<and> casefold n \<noteq> casefold g"
  shows "search is_valid_guid casefold api searchdata query worksheet table view = Inl IndexError"
proof -
  have names: "\<forall>h\<in>set (headers (api (search_request (Some g)))). \<exists>n. h ''name'' = Some (VStr n)"
    using assms(5) by blast
  have "filter (\<lambda>h. \<exists>n. h ''name'' = Some (VStr n) \<and> casefold n = casefold g)
          (headers (api (search_request (Some g)))) = []"
    using assms(5) by (auto simp: filter_empty_conv)
  with matching_names_filter [OF names, of casefold g]
  have "matching_names casefold (Some g) (headers (api (search_request (Some g)))) = Inr []"
    by simp
  then have "resolve_guid is_valid_guid casefold api (Some g) = Inl IndexError"
    using assms(3,4) by (simp add: resolve_guid_def Let_def)
  then show ?thesis using assms(1,2) by (simp add: search_def)
qed

lemma casefold_Sales: "ascii_casefold ''Sales'' = ''sales''"
  by code_simp

lemma casefold_Retail: "ascii_casefold ''Retail'' = ''retail''"
  by code_simp

theorem unmatched_name_raises_IndexError_witness:
  "search never_guid ascii_casefold names_api no_data ''[revenue]'' (Some ''Retail'') None None
     = Inl IndexError"
proof -
  have "\<forall>h\<in>set (headers (names_api (search_request (Some ''Retail'')))).
           \<exists>n. h ''name'' = Some (VStr n) \<and> ascii_casefold n \<noteq> ascii_casefold ''Retail''"
    by (simp add: names_api_def worksheet_header_def casefold_Sales casefold_Retail)
  then show ?thesis
    using unmatched_name_raises_IndexError [of "Some ''Retail''" None None "''Retail''"
        never_guid names_api ascii_casefold no_data "''[revenue]''"]
    by (simp add: count_None_def py_or_def never_guid_def names_api_def)
qed

section \<open>Properties of the tracking table\<close>

lemma tracked_Nil: "tracked t [] = t"
  by (simp add: tracked_def)

lemma tracked_Cons: "tracked t (d # ds) = tracked (t(the (d ''id'') \<mapsto> the (d ''name''))) ds"
  by (simp add: tracked_def)

lemma tracked_append: "tracked t (xs @ ys) = tracked (tracked t xs) ys"
  by (simp add: tracked_def)

lemma dom_tracked: "dom (tracked t ds) = dom t \<union> (\<lambda>d. the (d ''id'')) ` set ds"
proof (induction ds arbitrary: t)
  case Nil
  then show ?case by (simp add: tracked_Nil)
next
  case (Cons d ds)
  have "dom (tracked t (d # ds)) = dom (t(the (d ''id'') \<mapsto> the (d ''name''))) \<union> (\<lambda>d. the (d ''id'')) ` set ds"
    unfolding tracked_Cons by (rule Cons.IH)
  also have "\<dots> = dom t \<union> (\<lambda>d. the (d ''id'')) ` set (d # ds)"
    by auto
  finally show ?case .
qed

lemma enrich_all_tracked:
  "enrich_all ty track ds = Inr (track', rs) \<Longrightarrow> track' = tracked track ds"
proof (induction ds arbitrary: track rs)
  case Nil
  then show ?case by (simp add: tracked_Nil)
next
  case (Cons d ds)
  from Cons.prems obtain t1 r rs' where
    one: "enrich1 ty track d = Inr (t1, r)" and
    rest: "enrich_all ty t1 ds = Inr (track', rs')"
    by (auto split: sum.splits prod.splits)
  from enrich1_shape [OF one] have "t1 = track(the (d ''id'') \<mapsto> the (d ''name''))" by auto
  with Cons.IH [OF rest] show ?case by (simp only: tracked_Cons)
qed

lemma enrich1_total:
  "d ''name'' \<noteq> None \<Longrightarrow> d ''id'' \<noteq> None \<Longrightarrow> (ty = ''LOGICAL_COLUMN'' \<longrightarrow> d ''owner'' \<noteq> None) \<Longrightarrow>
   \<exists>t1 r. enrich1 ty track d = Inr (t1, r)"
  by (auto simp: enrich1_def getitem_def Let_def)

lemma enrich_all_total:
  "\<forall>d\<in>set ds. d ''name'' \<noteq> None \<and> d ''id'' \<noteq> None \<and> (ty = ''LOGICAL_COLUMN'' \<longrightarrow> d ''owner'' \<noteq> None) \<Longrightarrow>
   \<exists>track' rs. enrich_all ty track ds = Inr (track', rs)"
proof (induction ds arbitrary: track)
  case Nil
  then show ?case by simp
next
  case (Cons d ds)
  from Cons.prems have "d ''name'' \<noteq> None" "d ''id'' \<noteq> None" "ty = ''LOGICAL_COLUMN'' \<longrightarrow> d ''owner'' \<noteq> None"
    by simp_all
  from enrich1_total [OF this] obtain t1 r where one: "enrich1 ty track d = Inr (t1, r)" by blast
  from Cons.prems have "\<forall>d\<in>set ds. d ''name'' \<noteq> None \<and> d ''id'' \<noteq> None \<and> (ty = ''LOGICAL_COLUMN'' \<longrightarrow> d ''owner'' \<noteq> None)"
    by simp
  from Cons.IH [OF this] obtain track' rs where "enrich_all ty t1 ds = Inr (track', rs)" by blast
  with one show ?case by simp
qed

lemma tracked_lookup_scope:
  assumes "\<forall>d\<in>set ds. d ''id'' \<noteq> None" and "i < length ds"
    and "tracked track (take (Suc i) ds) ow \<noteq> None"
  shows "ow \<in> dom track \<or> (\<exists>j\<le>i. (ds ! j) ''id'' = Some ow)"
proof (cases "ow \<in> dom track")
  case True
  then show ?thesis by simp
next
  case False
  from assms(3) have "ow \<in> dom (tracked track (take (Suc i) ds))" by (simp add: dom_def)
  with False have "ow \<in> (\<lambda>d. the (d ''id'')) ` set (take (Suc i) ds)"
    unfolding dom_tracked by simp
  then obtain d where d: "d \<in> set (take (Suc i) ds)" and ow: "ow = the (d ''id'')" by blast
  from d obtain j where j: "j < length (take (Suc i) ds)" and dj: "take (Suc i) ds ! j = d"
    by (auto simp: in_set_conv_nth)
  from j have ji: "j \<le> i" by simp
  with dj assms(2) have "ds ! j = d" by simp
  moreover have "d \<in> set ds" using d by (rule in_set_takeD)
  with assms(1) have "d ''id'' \<noteq> None" by blast
  with ow have "d ''id'' = Some ow" by auto
  ultimately show ?thesis using ji by blast
qed

lemma enrich1_record:
  assumes "enrich1 ty track d = Inr (t1, r)"
  shows "t1 = track(the (d ''id'') \<mapsto> the (d ''name''))"
    and "r = [''type'' \<mapsto> VStr ty,
              ''context'' \<mapsto> (if ty = ''LOGICAL_COLUMN'' then dict_get t1 (the (d ''owner'')) else VNone)] ++ d"
    and "d ''id'' \<noteq> None" and "d ''name'' \<noteq> None"
proof -
  from enrich1_shape [OF assms] obtain n g ctx where
    n: "d ''name'' = Some n" and g: "d ''id'' = Some g" and t: "t1 = track(g \<mapsto> n)" and
    r: "r = [''type'' \<mapsto> VStr ty, ''context'' \<mapsto> ctx] ++ d" and
    c: "if ty = ''LOGICAL_COLUMN'' then (\<exists>ow. d ''owner'' = Some ow \<and> ctx = dict_get t1 ow) else ctx = VNone"
    by blast
  show "t1 = track(the (d ''id'') \<mapsto> the (d ''name''))" unfolding t n g by (simp only: option.sel)
  show "d ''id'' \<noteq> None" "d ''name'' \<noteq> None" using n g by simp_all
  have "ctx = (if ty = ''LOGICAL_COLUMN'' then dict_get t1 (the (d ''owner'')) else VNone)"
  proof (cases "ty = ''LOGICAL_COLUMN''")
    case True
    with c obtain ow where "d ''owner'' = Some ow" "ctx = dict_get t1 ow" by auto
    with True show ?thesis by simp
  next
    case False
    with c show ?thesis by simp
  qed
  with r show "r = [''type'' \<mapsto> VStr ty,
              ''context'' \<mapsto> (if ty = ''LOGICAL_COLUMN'' then dict_get t1 (the (d ''owner'')) else VNone)] ++ d"
    by (simp only:)
qed

lemma enrich_all_Cons:
  assumes "enrich_all ty track (d # ds) = Inr (track', rs)"
  obtains t1 r rs' where "enrich1 ty track d = Inr (t1, r)"
    and "enrich_all ty t1 ds = Inr (track', rs')" and "rs = r # rs'"
  using assms by (auto split: sum.splits prod.splits)

lemma enrich_all_record:
  "enrich_all ty track ds = Inr (track', rs) \<Longrightarrow> i < length ds \<Longrightarrow>
   rs ! i = [''type'' \<mapsto> VStr ty,
             ''context'' \<mapsto> (if ty = ''LOGICAL_COLUMN''
                           then dict_get (tracked track (take (Suc i) ds)) (the ((ds ! i) ''owner''))
                           else VNone)] ++ (ds ! i)"
proof (induction ds arbitrary: track rs i)
  case Nil
  then show ?case by simp
next
  case (Cons d ds)
  from Cons.prems(1) obtain t1 r rs' where
    one: "enrich1 ty track d = Inr (t1, r)" and
    rest: "enrich_all ty t1 ds = Inr (track', rs')" and rs: "rs = r # rs'"
    by (rule enrich_all_Cons)
  note t1 = enrich1_record(1) [OF one] and r = enrich1_record(2) [OF one]
  show ?case
  proof (cases i)
    case 0
    have a: "rs ! i = r" and b: "(d # ds) ! i = d" using 0 rs by simp_all
    have c: "tracked track (take (Suc i) (d # ds)) = t1"
      unfolding 0 by (simp only: take_Suc_Cons take_0 tracked_Cons tracked_Nil t1)
    show ?thesis unfolding a b c by (rule r)
  next
    case (Suc j)
    then have j: "j < length ds" and a: "rs ! i = rs' ! j" and b: "(d # ds) ! i = ds ! j"
      using Cons.prems(2) rs by simp_all
    have c: "tracked track (take (Suc i) (d # ds)) = tracked t1 (take (Suc j) ds)"
      unfolding Suc by (simp only: take_Suc_Cons tracked_Cons t1)
    show ?thesis unfolding a b c using Cons.IH [OF rest j] .
  qed
qed

lemma enrich_all_ids:
  "enrich_all ty track ds = Inr (track', rs) \<Longrightarrow> d \<in> set ds \<Longrightarrow> d ''id'' \<noteq> None"
proof (induction ds arbitrary: track rs)
  case Nil
  then show ?case by simp
next
  case (Cons x ds)
  from Cons.prems(1) obtain t1 r rs' where
    one: "enrich1 ty track x = Inr (t1, r)" and
    rest: "enrich_all ty t1 ds = Inr (track', rs')"
    by (rule enrich_all_Cons)
  show ?case
  proof (cases "d = x")
    case True
    with enrich1_record(3) [OF one] show ?thesis by simp
  next
    case False
    with Cons.prems(2) have "d \<in> set ds" by simp
    with Cons.IH [OF rest] show ?thesis .
  qed
qed

lemma filter_page_keeps: "filter_page ex rs = Inr kept \<Longrightarrow> kept = filter (keeps ex) rs"
proof (cases ex)
  case True
  assume "filter_page ex rs = Inr kept"
  with True have "exclude_system rs = Inr kept" by (simp add: filter_page_def)
  then have "kept = filter (\<lambda>a. a ''authorName'' \<noteq> Some (VStr ''system'') \<and>
                            a ''authorName'' \<noteq> Some (VStr ''tsadmin'')) rs"
    unfolding exclude_system_char by (simp split: if_splits)
  with True show ?thesis by (simp add: keeps_def [abs_def])
next
  case False
  assume "filter_page ex rs = Inr kept"
  with False show ?thesis by (simp add: filter_page_def keeps_def [abs_def])
qed

lemma typed_headers_snoc:
  "typed_headers api (rqs @ [rq]) =
     typed_headers api rqs @ map (Pair (the (rq_type rq))) (headers (api rq))"
  by (simp add: typed_headers_def)

lemma context_at_old: "i < length recs \<Longrightarrow> context_at (recs @ new) i = context_at recs i"
  by (simp add: context_at_def nth_append)

lemma enriched_at_old: "i < length recs \<Longrightarrow> enriched_at (recs @ new) i = enriched_at recs i"
  by (simp only: enriched_at_def context_at_old nth_append if_True)

lemma snd_Pair_map: "map snd (map (Pair ty) ds) = ds"
  by (induction ds) simp_all

lemma context_at_new:
  assumes "i < length ds"
  shows "context_at (recs @ map (Pair ty) ds) (length recs + i) =
           (if ty = ''LOGICAL_COLUMN''
            then dict_get (tracked (tracked Map.empty (map snd recs)) (take (Suc i) ds))
                   (the ((ds ! i) ''owner''))
            else VNone)"
proof -
  have n: "(recs @ map (Pair ty) ds) ! (length recs + i) = (ty, ds ! i)"
    using assms by (simp add: nth_append)
  have "take (Suc (length recs + i)) (recs @ map (Pair ty) ds) = recs @ map (Pair ty) (take (Suc i) ds)"
    by (simp add: take_map)
  then have "map snd (take (Suc (length recs + i)) (recs @ map (Pair ty) ds)) =
      map snd recs @ take (Suc i) ds"
    by (simp only: map_append snd_Pair_map)
  then have t: "tracked Map.empty (map snd (take (Suc (length recs + i)) (recs @ map (Pair ty) ds))) =
      tracked (tracked Map.empty (map snd recs)) (take (Suc i) ds)"
    by (simp only: tracked_append)
  show ?thesis unfolding context_at_def n t by (simp only: fst_conv snd_conv)
qed

lemma enriched_at_new:
  assumes "i < length ds"
  shows "enriched_at (recs @ map (Pair ty) ds) (length recs + i) =
           [''type'' \<mapsto> VStr ty,
            ''context'' \<mapsto> (if ty = ''LOGICAL_COLUMN''
                          then dict_get (tracked (tracked Map.empty (map snd recs)) (take (Suc i) ds))
                                 (the ((ds ! i) ''owner''))
                          else VNone)] ++ (ds ! i)"
proof -
  have n: "(recs @ map (Pair ty) ds) ! (length recs + i) = (ty, ds ! i)"
    using assms by (simp add: nth_append)
  show ?thesis unfolding enriched_at_def context_at_new [OF assms] n by (simp only: fst_conv snd_conv)
qed

lemma new_page_enriched:
  assumes "enrich_all ty (tracked Map.empty (map snd recs)) ds = Inr (tr, ext)"
  shows "map (enriched_at (recs @ map (Pair ty) ds)) [length recs..<length recs + length ds] = ext"
proof (rule nth_equalityI)
  show "length (map (enriched_at (recs @ map (Pair ty) ds)) [length recs..<length recs + length ds]) = length ext"
    using enrich_all_length [OF assms] by simp
next
  fix i assume "i < length (map (enriched_at (recs @ map (Pair ty) ds)) [length recs..<length recs + length ds])"
  then have i: "i < length ds" by simp
  then have "map (enriched_at (recs @ map (Pair ty) ds)) [length recs..<length recs + length ds] ! i =
      enriched_at (recs @ map (Pair ty) ds) (length recs + i)"
    by simp
  also have "\<dots> = ext ! i"
    unfolding enriched_at_new [OF i] using enrich_all_record [OF assms i] by (rule sym)
  finally show "map (enriched_at (recs @ map (Pair ty) ds)) [length recs..<length recs + length ds] ! i = ext ! i" .
qed

lemma old_pages_enriched:
  "map (enriched_at (recs @ new)) [0..<length recs] = map (enriched_at recs) [0..<length recs]"
  by (rule map_cong) (simp_all add: enriched_at_old)

lemma page_step_inv:
  assumes inv: "run_inv api ex st"
    and en: "enrich_all ty (track_guids st) (headers (api rq)) = Inr (tr, ext)"
    and fl: "filter_page ex ext = Inr kept"
    and ty: "rq_type rq = Some ty"
  shows "run_inv api ex \<lparr>requests = requests st @ [rq], track_guids = tr, content = content st @ kept\<rparr>"
proof -
  let ?recs = "typed_headers api (requests st)"
  let ?ds = "headers (api rq)"
  let ?recs' = "?recs @ map (Pair ty) ?ds"
  have recs': "typed_headers api (requests st @ [rq]) = ?recs'"
    unfolding typed_headers_snoc ty by (simp only: option.sel)
  from inv have tg: "track_guids st = tracked Map.empty (map snd ?recs)"
    and ids: "\<forall>d\<in>set (map snd ?recs). d ''id'' \<noteq> None"
    and ct: "content st = filter (keeps ex) (map (enriched_at ?recs) [0..<length ?recs])"
    by (simp_all add: run_inv_def)
  note en' = en [unfolded tg]
  have "tr = tracked (tracked Map.empty (map snd ?recs)) ?ds" using en' by (rule enrich_all_tracked)
  then have a: "tr = tracked Map.empty (map snd ?recs')"
    by (simp only: map_append snd_Pair_map tracked_append)
  have b: "\<forall>d\<in>set (map snd ?recs'). d ''id'' \<noteq> None"
  proof
    fix d assume "d \<in> set (map snd ?recs')"
    then have "d \<in> set (map snd ?recs) \<or> d \<in> set ?ds"
      by (simp only: map_append snd_Pair_map set_append Un_iff)
    then show "d ''id'' \<noteq> None" using ids enrich_all_ids [OF en'] by blast
  qed
  have len: "length ?recs' = length ?recs + length ?ds" by simp
  have "[0..<length ?recs'] = [0..<length ?recs] @ [length ?recs..<length ?recs + length ?ds]"
    unfolding len by (rule upt_add_eq_append) simp
  then have "map (enriched_at ?recs') [0..<length ?recs'] =
      map (enriched_at ?recs) [0..<length ?recs] @ ext"
    by (simp only: map_append old_pages_enriched new_page_enriched [OF en'])
  then have c: "content st @ kept = filter (keeps ex) (map (enriched_at ?recs') [0..<length ?recs'])"
    using ct filter_page_keeps [OF fl] by (simp only: filter_append)
  show ?thesis
    unfolding run_inv_def using a b c by (simp only: all_state.simps recs' simp_thms)
qed

lemma all_request_type: "rq_type (all_request ty cat tags cs off) = Some ty"
  by (simp add: all_request_def)

lemma page_loop_inv:
  "page_loop fuel api ty cat tags ex cs off st = Some (Inr st') \<Longrightarrow> run_inv api ex st \<Longrightarrow>
   run_inv api ex st'"
proof (induction fuel arbitrary: off st)
  case 0
  then show ?case by simp
next
  case (Suc fuel)
  let ?rq = "all_request ty cat tags cs off"
  show ?case
  proof (cases "enrich_all ty (track_guids st) (headers (api ?rq))")
    case (Inl e)
    with Suc.prems(1) show ?thesis by (simp add: Let_def)
  next
    case (Inr p)
    obtain tr ext where p: "p = (tr, ext)" by (cases p)
    note en = Inr [unfolded p]
    show ?thesis
    proof (cases "filter_page ex ext")
      case (Inl e)
      with Suc.prems(1) en show ?thesis by (simp add: Let_def)
    next
      case (Inr kept)
      note fl = this
      let ?st1 = "\<lparr>requests = requests st @ [?rq], track_guids = tr, content = content st @ kept\<rparr>"
      have inv1: "run_inv api ex ?st1"
        using Suc.prems(2) en fl all_request_type by (rule page_step_inv)
      show ?thesis
      proof (cases "isLastBatch (api ?rq)")
        case True
        with Suc.prems(1) en fl have "st' = ?st1" by (simp add: Let_def)
        with inv1 show ?thesis by (simp only:)
      next
        case False
        with Suc.prems(1) en fl have
          "page_loop fuel api ty cat tags ex cs (off + int (length ext)) ?st1 = Some (Inr st')"
          by (simp add: Let_def)
        from Suc.IH [OF this inv1] show ?thesis .
      qed
    qed
  qed
qed

lemma types_loop_inv:
  "types_loop fuel api tys cat tags ex cs st = Some (Inr st') \<Longrightarrow> run_inv api ex st \<Longrightarrow>
   run_inv api ex st'"
proof (induction tys arbitrary: st)
  case Nil
  then show ?case by simp
next
  case (Cons ty tys)
  show ?case
  proof (cases "page_loop fuel api ty cat tags ex cs 0 st")
    case None
    with Cons.prems(1) show ?thesis by simp
  next
    case (Some r)
    show ?thesis
    proof (cases r)
      case (Inl e)
      with Some Cons.prems(1) show ?thesis by simp
    next
      case (Inr st1)
      with Some have p: "page_loop fuel api ty cat tags ex cs 0 st = Some (Inr st1)" by simp
      with Cons.prems(1) have t: "types_loop fuel api tys cat tags ex cs st1 = Some (Inr st')" by simp
      from Cons.IH [OF t page_loop_inv [OF p Cons.prems(2)]] show ?thesis .
    qed
  qed
qed

lemma run_inv_initial: "run_inv api ex \<lparr>requests = [], track_guids = Map.empty, content = []\<rparr>"
  by (simp add: run_inv_def typed_headers_def tracked_Nil)

lemma all_run_inv:
  assumes "all_run fuel api ic tags cat ex cs = Some (Inr st)"
  shows "run_inv api ex st"
proof -
  from assms have "types_loop fuel api (all_types ic) cat (norm_tags tags) ex cs
      \<lparr>requests = [], track_guids = Map.empty, content = []\<rparr> = Some (Inr st)"
    by (simp add: all_run_def)
  from types_loop_inv [OF this run_inv_initial] show ?thesis .
qed

lemma context_at_scope:
  assumes ids: "\<forall>d\<in>set (map snd recs). d ''id'' \<noteq> None" and i: "i < length recs"
    and c: "context_at recs i \<noteq> VNone"
  shows "fst (recs ! i) = ''LOGICAL_COLUMN'' \<and>
         (\<exists>j\<le>i. snd (recs ! j) ''id'' = Some (the (snd (recs ! i) ''owner'')))"
proof -
  let ?ow = "the (snd (recs ! i) ''owner'')"
  from c have ty: "fst (recs ! i) = ''LOGICAL_COLUMN''"
    by (simp add: context_at_def split: if_splits)
  with c have "dict_get (tracked Map.empty (map snd (take (Suc i) recs))) ?ow \<noteq> VNone"
    by (simp add: context_at_def)
  then have "tracked Map.empty (map snd (take (Suc i) recs)) ?ow \<noteq> None"
    by (auto simp: dict_get_def split: option.splits)
  then have tr: "tracked Map.empty (take (Suc i) (map snd recs)) ?ow \<noteq> None"
    by (simp add: take_map)
  have il: "i < length (map snd recs)" using i by simp
  from tracked_lookup_scope [OF ids il tr]
  obtain j where j: "j \<le> i" and "(map snd recs ! j) ''id'' = Some ?ow" by auto
  moreover from j i have "map snd recs ! j = snd (recs ! j)" by simp
  ultimately have "\<exists>j\<le>i. snd (recs ! j) ''id'' = Some ?ow" by auto
  with ty show ?thesis by blast
qed

lemma enrich_all_authors:
  assumes "enrich_all ty track ds = Inr (track', rs)"
    and "\<forall>d\<in>set ds. d ''authorName'' \<noteq> None"
  shows "\<forall>r\<in>set rs. r ''authorName'' \<noteq> None"
proof
  fix r assume "r \<in> set rs"
  then obtain i where i: "i < length rs" and r: "rs ! i = r" by (auto simp: in_set_conv_nth)
  from i enrich_all_length [OF assms(1)] have il: "i < length ds" by simp
  from enrich_all_nth [OF assms(1) il] obtain ctx where
    "rs ! i = [''type'' \<mapsto> VStr ty, ''context'' \<mapsto> ctx] ++ (ds ! i)" by blast
  then have "(rs ! i) ''authorName'' = (ds ! i) ''authorName''"
    by (simp add: map_add_def split: option.splits)
  moreover have "ds ! i \<in> set ds" using il by simp
  ultimately show "r ''authorName'' \<noteq> None" using assms(2) r by auto
qed

lemma filter_page_total:
  "(ex \<longrightarrow> (\<forall>r\<in>set rs. r ''authorName'' \<noteq> None)) \<Longrightarrow> \<exists>kept. filter_page ex rs = Inr kept"
  by (simp add: filter_page_def exclude_system_char)

lemma page_loop_no_error:
  assumes wf: "\<forall>rq. \<forall>d\<in>set (headers (api rq)).
      d ''name'' \<noteq> None \<and> d ''id'' \<noteq> None \<and>
      (rq_type rq = Some ''LOGICAL_COLUMN'' \<longrightarrow> d ''owner'' \<noteq> None) \<and>
      (ex \<longrightarrow> d ''authorName'' \<noteq> None)"
  shows "page_loop fuel api ty cat tags ex cs off st \<noteq> Some (Inl e)"
proof (induction fuel arbitrary: off st)
  case 0
  show ?case by simp
next
  case (Suc fuel)
  let ?rq = "all_request ty cat tags cs off"
  from wf all_request_type [of ty cat tags cs off]
  have "\<forall>d\<in>set (headers (api ?rq)). d ''name'' \<noteq> None \<and> d ''id'' \<noteq> None \<and>
      (ty = ''LOGICAL_COLUMN'' \<longrightarrow> d ''owner'' \<noteq> None)"
    by auto
  from enrich_all_total [OF this] obtain tr ext where
    en: "enrich_all ty (track_guids st) (headers (api ?rq)) = Inr (tr, ext)" by blast
  from wf have "ex \<longrightarrow> (\<forall>d\<in>set (headers (api ?rq)). d ''authorName'' \<noteq> None)" by blast
  with enrich_all_authors [OF en] have "ex \<longrightarrow> (\<forall>r\<in>set ext. r ''authorName'' \<noteq> None)" by blast
  from filter_page_total [OF this] obtain kept where fl: "filter_page ex ext = Inr kept" by blast
  let ?st1 = "\<lparr>requests = requests st @ [?rq], track_guids = tr, content = content st @ kept\<rparr>"
  show ?case
  proof (cases "isLastBatch (api ?rq)")
    case True
    with en fl show ?thesis by (simp add: Let_def)
  next
    case False
    with en fl have "page_loop (Suc fuel) api ty cat tags ex cs off st =
        page_loop fuel api ty cat tags ex cs (off + int (length ext)) ?st1"
      by (simp add: Let_def)
    with Suc.IH show ?thesis by simp
  qed
qed

lemma types_loop_no_error:
  assumes wf: "\<forall>rq. \<forall>d\<in>set (headers (api rq)).
      d ''name'' \<noteq> None \<and> d ''id'' \<noteq> None \<and>
      (rq_type rq = Some ''LOGICAL_COLUMN'' \<longrightarrow> d ''owner'' \<noteq> None) \<and>
      (ex \<longrightarrow> d ''authorName'' \<noteq> None)"
  shows "types_loop fuel api tys cat tags ex cs st \<noteq> Some (Inl e)"
proof (induction tys arbitrary: st)
  case Nil
  show ?case by simp
next
  case (Cons ty tys)
  show ?case
  proof (cases "page_loop fuel api ty cat tags ex cs 0 st")
    case None
    then show ?thesis by simp
  next
    case (Some r)
    show ?thesis
    proof (cases r)
      case (Inl e')
      with Some page_loop_no_error [OF wf, of fuel ty cat tags cs 0 st e'] show ?thesis by simp
    next
      case (Inr st1)
      with Some Cons.IH [of st1] show ?thesis by simp
    qed
  qed
qed

lemma all_run_no_error:
  assumes "\<forall>rq. \<forall>d\<in>set (headers (api rq)).
      d ''name'' \<noteq> None \<and> d ''id'' \<noteq> None \<and>
      (rq_type rq = Some ''LOGICAL_COLUMN'' \<longrightarrow> d ''owner'' \<noteq> None) \<and>
      (ex \<longrightarrow> d ''authorName'' \<noteq> None)"
  shows "all_run fuel api ic tags cat ex cs \<noteq> Some (Inl e)"
  unfolding all_run_def using assms by (rule types_loop_no_error)


text \<open>
  C6, amended. Let a run of \<open>all\<close> end in state \<open>st\<close>, and let \<open>recs\<close> be the
  headers it fetched, in fetch order, starting from the empty tracking table. The
  collection is the list of the records \<open>enriched_at recs i\<close>, in order, less those
  the exclusion filter drops. A context other than \<open>None\<close> occurs only for a column
  whose owner is the id of a record fetched at a position \<open>j \<le> i\<close> of this run: an
  earlier record, or the record itself, which is entered in the table before its own
  lookup. Any other owner, a forward reference for one, gives \<open>None\<close>. And no lookup
  raises: when every header the server sends has a name and an id (a column also an
  owner, and an author when the exclusion is on), the run ends without any error.
\<close>

theorem context_lookup_scope:
  "(all_run fuel api include_columns tags category ex chunksize = Some (Inr st) \<longrightarrow>
      content st = filter (keeps ex)
        (map (enriched_at (typed_headers api (requests st)))
           [0..<length (typed_headers api (requests st))]) \<and>
      (\<forall>i<length (typed_headers api (requests st)).
         context_at (typed_headers api (requests st)) i \<noteq> VNone \<longrightarrow>
           fst (typed_headers api (requests st) ! i) = ''LOGICAL_COLUMN'' \<and>
           (\<exists>j\<le>i. snd (typed_headers api (requests st) ! j) ''id'' =
                     Some (the (snd (typed_headers api (requests st) ! i) ''owner''))))) \<and>
   ((\<forall>rq. \<forall>d\<in>set (headers (api rq)).
        d ''name'' \<noteq> None \<and> d ''id'' \<noteq> None \<and>
        (rq_type rq = Some ''LOGICAL_COLUMN'' \<longrightarrow> d ''owner'' \<noteq> None) \<and>
        (ex \<longrightarrow> d ''authorName'' \<noteq> None)) \<longrightarrow>
      (\<forall>e. all_run fuel api include_columns tags category ex chunksize \<noteq> Some (Inl e)))"
proof (intro conjI impI allI)
  assume run: "all_run fuel api include_columns tags category ex chunksize = Some (Inr st)"
  note inv = all_run_inv [OF run, unfolded run_inv_def]
  from inv show "content st = filter (keeps ex)
        (map (enriched_at (typed_headers api (requests st)))
           [0..<length (typed_headers api (requests st))])" by blast
  from inv have ids: "\<forall>d\<in>set (map snd (typed_headers api (requests st))). d ''id'' \<noteq> None" by blast
  fix i
  assume i: "i < length (typed_headers api (requests st))"
    and c: "context_at (typed_headers api (requests st)) i \<noteq> VNone"
  from context_at_scope [OF ids i c]
  show "fst (typed_headers api (requests st) ! i) = ''LOGICAL_COLUMN''"
    and "\<exists>j\<le>i. snd (typed_headers api (requests st) ! j) ''id'' =
                     Some (the (snd (typed_headers api (requests st) ! i) ''owner''))"
    by blast+
next
  fix e
  assume "\<forall>rq. \<forall>d\<in>set (headers (api rq)).
        d ''name'' \<noteq> None \<and> d ''id'' \<noteq> None \<and>
        (rq_type rq = Some ''LOGICAL_COLUMN'' \<longrightarrow> d ''owner'' \<noteq> None) \<and>
        (ex \<longrightarrow> d ''authorName'' \<noteq> None)"
  then show "all_run fuel api include_columns tags category ex chunksize \<noteq> Some (Inl e)"
    by (rule all_run_no_error)
qed

text \<open>
  C6 as stated: the lookup succeeds only for a parent seen in an earlier record. The
  loop enters a record in the tracking table before it looks its owner up, so a
  record that names itself as owner finds its own name: in a run that fetches this
  one record and nothing else, the context is \<open>Revenue\<close>.
\<close>

theorem self_owned_context_counterexample:
  "contexts (all_content (Suc 0) columns_api True NoTags ''ALL'' False 500) = [Some (VStr ''Revenue'')] \<and>
   length (fetched columns_api (all_run (Suc 0) columns_api True NoTags ''ALL'' False 500)) = 1"
  by (simp add: contexts_def fetched_def all_content_def all_run_def all_types_def columns_api_def
      filter_page_def Let_def all_request_def no_args_def enrich1_def getitem_def dict_get_def
      revenue_column_def)

lemma model_api_wf:
  "\<forall>rq. \<forall>d\<in>set (headers (model_api rq)).
        d ''name'' \<noteq> None \<and> d ''id'' \<noteq> None \<and>
        (rq_type rq = Some ''LOGICAL_COLUMN'' \<longrightarrow> d ''owner'' \<noteq> None) \<and>
        (False \<longrightarrow> d ''authorName'' \<noteq> None)"
  by (simp add: model_api_def worksheet_header_def region_column_def orphan_column_def)

lemma model_run:
  "\<exists>st. all_run (Suc 0) model_api True NoTags ''ALL'' False 500 = Some (Inr st)"
  by (simp add: all_run_def all_types_def model_api_def filter_page_def Let_def all_request_def
      no_args_def enrich1_def getitem_def worksheet_header_def region_column_def orphan_column_def)

lemma model_contexts:
  "contexts (all_content (Suc 0) model_api True NoTags ''ALL'' False 500) =
     [Some VNone, Some (VStr ''Sales''), Some VNone]"
  by (simp add: contexts_def all_content_def all_run_def all_types_def model_api_def
      filter_page_def Let_def all_request_def no_args_def enrich1_def getitem_def dict_get_def
      worksheet_header_def region_column_def orphan_column_def)


theorem context_lookup_scope_witness:
  "contexts (all_content (Suc 0) model_api True NoTags ''ALL'' False 500) =
     [Some VNone, Some (VStr ''Sales''), Some VNone] \<and>
   all_run (Suc 0) model_api True NoTags ''ALL'' False 500 \<noteq> Some (Inl (KeyError ''owner''))"
proof -
  from model_run obtain st where
    st: "all_run (Suc 0) model_api True NoTags ''ALL'' False 500 = Some (Inr st)" by blast
  note scope = context_lookup_scope [of "Suc 0" model_api True NoTags "''ALL''" False 500 st]
  from scope st have "content st = filter (keeps False)
        (map (enriched_at (typed_headers model_api (requests st)))
           [0..<length (typed_headers model_api (requests st))])" by blast
  moreover from scope model_api_wf
  have "all_run (Suc 0) model_api True NoTags ''ALL'' False 500 \<noteq> Some (Inl (KeyError ''owner''))"
    by blast
  ultimately show ?thesis using model_contexts by blast
qed

end
